theory Spec2Isabelle
  imports Complex_Main "HOL-Library.Sublist"
begin

section \<open>The capture worker (src/workers/capture-worker.ts)\<close>

text \<open>
  A shallow embedding of the class \<open>CaptureWorker\<close>. The strings that the tag classifier
  reads are lists of UTF-16 code units (natural numbers); the other strings (identifiers,
  keys, the text that the PII patterns read) are lists of \<open>char\<close> and cover the code
  units U+0000 to U+00FF. Buffers are lists of bytes, also \<open>char\<close>. The collaborators of
  the worker (browser, image codec, text recognition, object storage, database) are an
  explicit environment that fixes what each call returns and whether it throws, and an
  explicit world state that the calls change.
\<close>

subsection \<open>Strings: \<open>toLowerCase\<close> and \<open>includes\<close>\<close>

type_synonym buffer = "char list"

definition inRange :: "char \<Rightarrow> char \<Rightarrow> char \<Rightarrow> bool" where
  "inRange lo hi c \<longleftrightarrow> (of_char lo :: nat) \<le> of_char c \<and> (of_char c :: nat) \<le> of_char hi"

type_synonym codeUnits = "nat list"

text \<open>The code units of a string of the range U+0000 to U+00FF.\<close>

definition units :: "string \<Rightarrow> codeUnits" where
  "units s = map of_char s"

text \<open>
  \<open>String.prototype.toLowerCase\<close> replaces every code point by its lower-case mapping
  of the Unicode character database. What the mapping does to a code unit: \<open>A\<close> to \<open>Z\<close>
  (65 to 90) move 32 places up, the other ASCII code units stay, the Kelvin sign U+212A
  (8490) becomes \<open>k\<close> (107), and the dotted capital I U+0130 (304) becomes \<open>i\<close> and the
  combining dot U+0307 (105, 775). The rest of the database is a parameter: a table
  that gives the code units for a code unit of the string, and may look at the code
  units before it (nearest first) and after it, as the mapping does for a final sigma
  and for surrogate pairs.
\<close>

definition lowerUnit :: "(nat \<Rightarrow> nat list) \<Rightarrow> nat \<Rightarrow> nat list" where
  "lowerUnit other c =
     (if 65 \<le> c \<and> c \<le> 90 then [c + 32]
      else if c < 128 then [c]
      else if c = 8490 then [107]
      else if c = 304 then [105, 775]
      else other c)"

fun lowerFrom :: "(nat list \<Rightarrow> nat list \<Rightarrow> nat \<Rightarrow> nat list) \<Rightarrow> nat list \<Rightarrow> codeUnits \<Rightarrow> codeUnits" where
  "lowerFrom tbl before [] = []"
| "lowerFrom tbl before (c # after) =
     lowerUnit (tbl before after) c @ lowerFrom tbl (c # before) after"

definition toLowerCase :: "(nat list \<Rightarrow> nat list \<Rightarrow> nat \<Rightarrow> nat list) \<Rightarrow> codeUnits \<Rightarrow> codeUnits" where
  "toLowerCase tbl s = lowerFrom tbl [] s"

text \<open>\<open>s.includes(k)\<close>: \<open>k\<close> occurs in \<open>s\<close> as a contiguous substring.\<close>

definition includesStr :: "'a list \<Rightarrow> 'a list \<Rightarrow> bool" where
  "includesStr s k = sublist k s"

subsection \<open>\<open>generateAITags\<close>\<close>

text \<open>\<open>tags.add(x)\<close> on a JavaScript \<open>Set\<close>, which keeps insertion order.\<close>

definition setAdd :: "string list \<Rightarrow> string \<Rightarrow> string list" where
  "setAdd tags x = (if x \<in> set tags then tags else tags @ [x])"

definition generateAITags :: "(nat list \<Rightarrow> nat list \<Rightarrow> nat \<Rightarrow> nat list) \<Rightarrow> codeUnits
    \<Rightarrow> codeUnits option \<Rightarrow> string list" where
  "generateAITags tbl url ocrText =
    (let text = (case ocrText of None \<Rightarrow> [] | Some t \<Rightarrow> t);
         urlLower = toLowerCase tbl url;
         tags0 = [];
         tags1 = (if includesStr urlLower (units ''checkout'')
                     \<or> includesStr (toLowerCase tbl text) (units ''checkout'')
                  then setAdd tags0 ''checkout'' else tags0);
         tags2 = (if includesStr urlLower (units ''payment'')
                     \<or> includesStr (toLowerCase tbl text) (units ''payment'')
                  then setAdd tags1 ''payment'' else tags1);
         tags3 = (if includesStr urlLower (units ''ticket'')
                     \<or> includesStr (toLowerCase tbl text) (units ''ticket'')
                  then setAdd tags2 ''ticket'' else tags2);
         tags4 = (if includesStr urlLower (units ''event'')
                     \<or> includesStr (toLowerCase tbl text) (units ''event'')
                  then setAdd tags3 ''event'' else tags3);
         tags5 = (if includesStr urlLower (units ''room'')
                     \<or> includesStr (toLowerCase tbl text) (units ''room'')
                  then setAdd tags4 ''accommodation'' else tags4)
     in tags5)"

text \<open>
  The words of the specification, to compare with the code: the fixed vocabulary of
  keywords with the label of each, and what it is for a keyword to appear in a string
  case-insensitively. Two code units are the same up to case when they fold to the same
  code unit, by a table of their own: each capital letter with its small letter, and the
  Kelvin sign with \<open>k\<close>. The keywords are ASCII, so the letters outside ASCII play no
  part. A keyword appears in a string when some substring is, code unit by code unit,
  the same as the keyword up to case.
\<close>

definition vocabulary :: "(string \<times> string) list" where
  "vocabulary = [(''checkout'', ''checkout''), (''payment'', ''payment''),
     (''ticket'', ''ticket''), (''event'', ''event''), (''room'', ''accommodation'')]"

definition foldPairs :: "(nat \<times> nat) list" where
  "foldPairs = zip (units ''ABCDEFGHIJKLMNOPQRSTUVWXYZ'') (units ''abcdefghijklmnopqrstuvwxyz'')
     @ [(8490, of_char (CHR ''k''))]"

definition foldUnit :: "nat \<Rightarrow> nat" where
  "foldUnit c = (case map_of foldPairs c of None \<Rightarrow> c | Some d \<Rightarrow> d)"

definition sameIgnoringCase :: "nat \<Rightarrow> nat \<Rightarrow> bool" where
  "sameIgnoringCase c d \<longleftrightarrow> foldUnit c = foldUnit d"

definition appearsIgnoringCase :: "codeUnits \<Rightarrow> codeUnits \<Rightarrow> bool" where
  "appearsIgnoringCase k s \<longleftrightarrow>
     (\<exists>pre w post. s = pre @ w @ post \<and> list_all2 sameIgnoringCase w k)"

definition textOf :: "codeUnits option \<Rightarrow> codeUnits" where
  "textOf ocrText = (case ocrText of None \<Rightarrow> [] | Some t \<Rightarrow> t)"

text \<open>
  What the statements ask of the table: for a code unit from U+0080 on (other than the
  two above, which never reach the table) it gives at least one code unit and no small
  ASCII letter. The Unicode character database is so: only \<open>A\<close> to \<open>Z\<close>, U+0130 and
  U+212A have a small ASCII letter in their lower-case mapping.
\<close>

definition asciiLower :: "nat \<Rightarrow> bool" where
  "asciiLower u \<longleftrightarrow> 97 \<le> u \<and> u \<le> 122"

definition lowerTableOK :: "(nat list \<Rightarrow> nat list \<Rightarrow> nat \<Rightarrow> nat list) \<Rightarrow> bool" where
  "lowerTableOK tbl \<longleftrightarrow>
     (\<forall>before after c. 128 \<le> c \<longrightarrow>
        tbl before after c \<noteq> [] \<and> list_all (\<lambda>u. \<not> asciiLower u) (tbl before after c))"

subsection \<open>Regular expressions of \<open>detectAndBlurPII\<close>\<close>

text \<open>
  The four patterns are sequences of word-boundary assertions and repeated character
  classes: no groups, no alternation (the \<open>|\<close> inside \<open>[A-Z|a-z]\<close> is a member of the
  class). \<open>Rep P lo hi\<close> is the class \<open>P\<close> repeated at least \<open>lo\<close> and at most \<open>hi\<close>
  times (\<open>None\<close>: no upper bound). \<open>pattern.test(text)\<close> on a pattern without flags is
  true when the pattern matches somewhere in the text; backtracking tries every split,
  so the model collects every position where an item can end.
\<close>

definition isDigit :: "char \<Rightarrow> bool" where
  "isDigit c = inRange (CHR ''0'') (CHR ''9'') c"

definition isWord :: "char \<Rightarrow> bool" where
  "isWord c \<longleftrightarrow> inRange (CHR ''A'') (CHR ''Z'') c \<or> inRange (CHR ''a'') (CHR ''z'') c
     \<or> inRange (CHR ''0'') (CHR ''9'') c \<or> c = CHR ''_''"

text \<open>\<open>\s\<close> below U+0100: tab, line feed, vertical tab, form feed, carriage return,
  space and the no-break space.\<close>

definition isSpace :: "char \<Rightarrow> bool" where
  "isSpace c \<longleftrightarrow> (of_char c :: nat) \<in> {9, 10, 11, 12, 13, 32, 160}"

datatype item = WordBoundary | Rep "char \<Rightarrow> bool" nat "nat option"

definition Lit :: "char \<Rightarrow> item" where
  "Lit c = Rep (\<lambda>x. x = c) 1 (Some 1)"

definition Exactly :: "(char \<Rightarrow> bool) \<Rightarrow> nat \<Rightarrow> item" where
  "Exactly P n = Rep P n (Some n)"

definition Opt :: "(char \<Rightarrow> bool) \<Rightarrow> item" where
  "Opt P = Rep P 0 (Some 1)"

definition Plus :: "(char \<Rightarrow> bool) \<Rightarrow> item" where
  "Plus P = Rep P 1 None"

definition AtLeast :: "(char \<Rightarrow> bool) \<Rightarrow> nat \<Rightarrow> item" where
  "AtLeast P n = Rep P n None"

text \<open>\<open>\b\<close> at position \<open>i\<close>: exactly one of the code units before and after the
  position is a word character (a missing one counts as not a word character).\<close>

definition atBoundary :: "string \<Rightarrow> nat \<Rightarrow> bool" where
  "atBoundary t i \<longleftrightarrow>
     (0 < i \<and> i \<le> length t \<and> isWord (t ! (i - 1))) \<noteq> (i < length t \<and> isWord (t ! i))"

fun matchItem :: "string \<Rightarrow> item \<Rightarrow> nat \<Rightarrow> nat list" where
  "matchItem t WordBoundary i = (if atBoundary t i then [i] else [])"
| "matchItem t (Rep P lo hi) i =
     (let n = length (takeWhile P (drop i t));
          m = (case hi of None \<Rightarrow> n | Some h \<Rightarrow> min n h)
      in map (\<lambda>k. i + k) [lo ..< Suc m])"

fun matchSeq :: "string \<Rightarrow> item list \<Rightarrow> nat \<Rightarrow> bool" where
  "matchSeq t [] i = True"
| "matchSeq t (x # xs) i = list_ex (matchSeq t xs) (matchItem t x i)"

definition test :: "item list \<Rightarrow> string \<Rightarrow> bool" where
  "test p t = list_ex (matchSeq t p) [0 ..< Suc (length t)]"




text \<open>\<^verbatim>\<open>/\b\d{3}-\d{2}-\d{4}\b/\<close>\<close>

definition ssnPattern :: "item list" where
  "ssnPattern = [WordBoundary, Exactly isDigit 3, Lit (CHR ''-''), Exactly isDigit 2,
     Lit (CHR ''-''), Exactly isDigit 4, WordBoundary]"

definition sepClass :: "char \<Rightarrow> bool" where
  "sepClass c \<longleftrightarrow> isSpace c \<or> c = CHR ''-''"

text \<open>\<^verbatim>\<open>/\b\d{4}[\s-]?\d{4}[\s-]?\d{4}[\s-]?\d{4}\b/\<close>\<close>

definition cardPattern :: "item list" where
  "cardPattern = [WordBoundary, Exactly isDigit 4, Opt sepClass, Exactly isDigit 4,
     Opt sepClass, Exactly isDigit 4, Opt sepClass, Exactly isDigit 4, WordBoundary]"

definition localClass :: "char \<Rightarrow> bool" where
  "localClass c \<longleftrightarrow> inRange (CHR ''A'') (CHR ''Z'') c \<or> inRange (CHR ''a'') (CHR ''z'') c
     \<or> inRange (CHR ''0'') (CHR ''9'') c \<or> c \<in> set ''._%+-''"

definition domainClass :: "char \<Rightarrow> bool" where
  "domainClass c \<longleftrightarrow> inRange (CHR ''A'') (CHR ''Z'') c \<or> inRange (CHR ''a'') (CHR ''z'') c
     \<or> inRange (CHR ''0'') (CHR ''9'') c \<or> c \<in> set ''.-''"

definition tldClass :: "char \<Rightarrow> bool" where
  "tldClass c \<longleftrightarrow> inRange (CHR ''A'') (CHR ''Z'') c \<or> c = CHR ''|''
     \<or> inRange (CHR ''a'') (CHR ''z'') c"

text \<open>\<^verbatim>\<open>/\b[A-Za-z0-9._%+-]+@[A-Za-z0-9.-]+\.[A-Z|a-z]{2,}\b/\<close>\<close>

definition emailPattern :: "item list" where
  "emailPattern = [WordBoundary, Plus localClass, Lit (CHR ''@''), Plus domainClass,
     Lit (CHR ''.''), AtLeast tldClass 2, WordBoundary]"

text \<open>\<^verbatim>\<open>/\b\d{3}[\s-]?\d{3}[\s-]?\d{4}\b/\<close>\<close>

definition phonePattern :: "item list" where
  "phonePattern = [WordBoundary, Exactly isDigit 3, Opt sepClass, Exactly isDigit 3,
     Opt sepClass, Exactly isDigit 4, WordBoundary]"

definition piiPatterns :: "item list list" where
  "piiPatterns = [ssnPattern, cardPattern, emailPattern, phonePattern]"

text \<open>\<open>piiPatterns.some(pattern => pattern.test(text))\<close>\<close>

definition hasPII :: "string \<Rightarrow> bool" where
  "hasPII text = list_ex (\<lambda>pattern. test pattern text) piiPatterns"


subsection \<open>Jobs, database rows and the world\<close>

datatype breakpoint = desktop | mobile

record CaptureJob =
  jobId :: string
  url :: string
  breakpoint :: breakpoint
  width :: nat
  height :: nat
  withContent :: bool
  priority :: int
  siteId :: string
  screenId :: string

text \<open>
  The rows of the three tables the worker writes, with the columns it writes. The
  identifier of a new row is given by the store; here it is the number of rows the
  table had. Each table is a list, newest row first, so that
  \<open>findFirst({orderBy: {createdAt: 'desc'}})\<close> is the first row that matches.
\<close>

record screen =
  screen_status :: string
  screen_ocrText :: "string option"
  screen_aiTags :: "string list"
  screen_piiBlur :: bool
  screen_lastSeenAt :: nat

record screenFile =
  file_id :: nat
  file_screenId :: string
  file_webpUrl :: "string option"
  file_pngUrl :: "string option"
  file_thumbUrl :: "string option"
  file_sha256 :: string
  file_imgHash :: string

record capture =
  capture_id :: nat
  capture_screenId :: string
  capture_etag :: "string option"
  capture_lastModified :: "string option"
  capture_domHash :: string
  capture_imgHash :: string
  capture_diffScore :: real
  capture_changed :: bool

record world =
  screens :: "string \<rightharpoonup> screen"
  screenFiles :: "screenFile list"
  captures :: "capture list"
  bucketObjects :: "string \<rightharpoonup> buffer"
  pagesOpened :: nat
  pagesClosed :: nat

text \<open>
  Every call that can throw is a stage. The environment of one job says which stages
  throw and what the collaborators return: the screenshot and the serialized DOM of
  the page, the responses seen by \<open>getEtag\<close> and \<open>getLastModified\<close> (\<open>None\<close>:
  \<open>waitForResponse\<close> threw), the image codec, the text recognition and the clock.
\<close>

datatype stage =
  ScreenUpdateProcessing | NewPage | SetViewportSize | Goto | WaitForTimeout | Screenshot
  | PageContent | SharpWebp | SharpThumb | RecognizeText | RecognizePii | S3Send string
  | ScreenFileCreate | CaptureFindFirst | CaptureCreate | ScreenUpdateCaptured | PageClose
  | ScreenUpdateFailed

datatype error = BrowserNotInitialized | Thrown stage | RecordNotFound string

record env =
  fails :: "stage \<Rightarrow> bool"
  screenshotBytes :: buffer
  domContent :: string
  etagResponse :: "(string \<rightharpoonup> string) option"
  lastModifiedResponse :: "(string \<rightharpoonup> string) option"
  sharpWebp :: "buffer \<Rightarrow> buffer"
  sharpThumb :: "buffer \<Rightarrow> buffer"
  recognize :: "buffer \<Rightarrow> string"
  clock :: nat

text \<open>The hash functions of \<open>crypto\<close> (hex digests), the process environment and
  the table of \<open>toLowerCase\<close>.\<close>

record platform =
  sha256Hex :: "buffer \<Rightarrow> string"
  md5Hex :: "buffer \<Rightarrow> string"
  CDN_URL :: string
  unicodeLower :: "nat list \<Rightarrow> nat list \<Rightarrow> nat \<Rightarrow> nat list"

record CaptureWorker =
  browser :: bool

record processedImages =
  img_png :: buffer
  img_webp :: buffer
  img_thumb :: buffer
  img_sha256 :: string
  img_imgHash :: string

record jobResult =
  success :: bool
  res_screenId :: string
  captureId :: nat
  fileId :: nat
  res_urls :: "string \<rightharpoonup> string"

subsection \<open>Awaited calls: a result or an error, and the world after the call\<close>

type_synonym 'a io = "world \<Rightarrow> (error + 'a) \<times> world"

definition ret :: "'a \<Rightarrow> 'a io" where
  "ret x w = (Inr x, w)"

definition bind :: "'a io \<Rightarrow> ('a \<Rightarrow> 'b io) \<Rightarrow> 'b io" where
  "bind m f w = (case m w of (Inl e, w') \<Rightarrow> (Inl e, w') | (Inr x, w') \<Rightarrow> f x w')"

text \<open>A call with no modelled effect other than that it may throw.\<close>

definition attempt :: "env \<Rightarrow> stage \<Rightarrow> 'a \<Rightarrow> 'a io" where
  "attempt e st x w = (if fails e st then (Inl (Thrown st), w) else (Inr x, w))"

text \<open>\<open>prisma.screen.update\<close>: throws when no row has the identifier.\<close>

definition screen_update :: "env \<Rightarrow> stage \<Rightarrow> string \<Rightarrow> (screen \<Rightarrow> screen) \<Rightarrow> unit io" where
  "screen_update e st sid f w =
     (if fails e st then (Inl (Thrown st), w)
      else case screens w sid of
             None \<Rightarrow> (Inl (RecordNotFound sid), w)
           | Some row \<Rightarrow> (Inr (), w\<lparr>screens := (screens w)(sid \<mapsto> f row)\<rparr>))"

definition screenFile_create :: "env \<Rightarrow> (nat \<Rightarrow> screenFile) \<Rightarrow> screenFile io" where
  "screenFile_create e mk w =
     (if fails e ScreenFileCreate then (Inl (Thrown ScreenFileCreate), w)
      else let row = mk (length (screenFiles w))
           in (Inr row, w\<lparr>screenFiles := row # screenFiles w\<rparr>))"

definition capture_create :: "env \<Rightarrow> (nat \<Rightarrow> capture) \<Rightarrow> capture io" where
  "capture_create e mk w =
     (if fails e CaptureCreate then (Inl (Thrown CaptureCreate), w)
      else let row = mk (length (captures w))
           in (Inr row, w\<lparr>captures := row # captures w\<rparr>))"

definition capture_findFirst :: "env \<Rightarrow> string \<Rightarrow> capture option io" where
  "capture_findFirst e sid w =
     (if fails e CaptureFindFirst then (Inl (Thrown CaptureFindFirst), w)
      else (Inr (find (\<lambda>c. capture_screenId c = sid) (captures w)), w))"

definition newPage :: "env \<Rightarrow> unit io" where
  "newPage e w =
     (if fails e NewPage then (Inl (Thrown NewPage), w)
      else (Inr (), w\<lparr>pagesOpened := Suc (pagesOpened w)\<rparr>))"

definition page_close :: "env \<Rightarrow> unit io" where
  "page_close e w =
     (if fails e PageClose then (Inl (Thrown PageClose), w)
      else (Inr (), w\<lparr>pagesClosed := Suc (pagesClosed w)\<rparr>))"

definition s3_send :: "env \<Rightarrow> string \<Rightarrow> buffer \<Rightarrow> unit io" where
  "s3_send e key body w =
     (if fails e (S3Send key) then (Inl (Thrown (S3Send key)), w)
      else (Inr (), w\<lparr>bucketObjects := (bucketObjects w)(key \<mapsto> body)\<rparr>))"

subsection \<open>The private methods of \<open>CaptureWorker\<close>\<close>

text \<open>\<open>response.headers()['etag'] || null\<close>, and \<open>null\<close> when waiting for the response
  throws.\<close>

definition header :: "(string \<rightharpoonup> string) option \<Rightarrow> string \<Rightarrow> string option" where
  "header response name =
     (case response of
        None \<Rightarrow> None
      | Some headers \<Rightarrow>
          (case headers name of None \<Rightarrow> None | Some v \<Rightarrow> if v = [] then None else Some v))"

definition getEtag :: "env \<Rightarrow> string option" where
  "getEtag e = header (etagResponse e) ''etag''"

definition getLastModified :: "env \<Rightarrow> string option" where
  "getLastModified e = header (lastModifiedResponse e) ''last-modified''"

definition getDomHash :: "platform \<Rightarrow> env \<Rightarrow> string io" where
  "getDomHash P e = bind (attempt e PageContent (domContent e)) (\<lambda>dom. ret (sha256Hex P dom))"

definition processImage :: "platform \<Rightarrow> env \<Rightarrow> buffer \<Rightarrow> CaptureJob \<Rightarrow> processedImages io" where
  "processImage P e screenshot job =
     bind (attempt e SharpWebp (sharpWebp e screenshot)) (\<lambda>webp.
     bind (attempt e SharpThumb (sharpThumb e screenshot)) (\<lambda>thumb.
     ret \<lparr>img_png = screenshot, img_webp = webp, img_thumb = thumb,
          img_sha256 = sha256Hex P screenshot, img_imgHash = md5Hex P screenshot\<rparr>))"

text \<open>
  \<open>extractText\<close> is called at two places; the stage says which call it is. Creating
  the recognition worker and recognizing are one stage; the worker is terminated in a
  \<open>finally\<close> block, which is not modelled.
\<close>

definition extractText :: "env \<Rightarrow> stage \<Rightarrow> buffer \<Rightarrow> string io" where
  "extractText e st imageBuffer = attempt e st (recognize e imageBuffer)"

definition detectAndBlurPII :: "env \<Rightarrow> buffer \<Rightarrow> bool io" where
  "detectAndBlurPII e imageBuffer =
     bind (extractText e RecognizePii imageBuffer) (\<lambda>text. ret (hasPII text))"

text \<open>
  \<open>uploadToS3\<close>: the three uploads in order, each a \<open>PutObjectCommand\<close> that may throw,
  and the URL of each under the key \<open>thumb\<close>, \<open>webp\<close> or \<open>png\<close>. The bucket name, the
  content type and the cache control of a command are not modelled.
\<close>

definition urlKey :: "string \<Rightarrow> string" where
  "urlKey key = (if includesStr key ''thumb'' then ''thumb''
                 else if includesStr key ''webp'' then ''webp'' else ''png'')"

fun uploadLoop :: "platform \<Rightarrow> env \<Rightarrow> (string \<times> buffer) list \<Rightarrow> (string \<rightharpoonup> string)
    \<Rightarrow> (string \<rightharpoonup> string) io" where
  "uploadLoop P e [] urls w = (Inr urls, w)"
| "uploadLoop P e ((key, body) # uploads) urls w =
     (case s3_send e key body w of
        (Inl err, w') \<Rightarrow> (Inl err, w')
      | (Inr _, w') \<Rightarrow> uploadLoop P e uploads (urls(urlKey key \<mapsto> CDN_URL P @ ''/'' @ key)) w')"

definition uploadKeys :: "CaptureJob \<Rightarrow> string list" where
  "uploadKeys job =
     (let prefix = ''screenshots/'' @ siteId job @ ''/'' @ screenId job
      in [prefix @ ''/original.webp'', prefix @ ''/original.png'', prefix @ ''/thumb.webp''])"

definition uploadToS3 :: "platform \<Rightarrow> env \<Rightarrow> processedImages \<Rightarrow> CaptureJob
    \<Rightarrow> (string \<rightharpoonup> string) io" where
  "uploadToS3 P e images job =
     (let uploads = zip (uploadKeys job) [img_webp images, img_png images, img_thumb images]
      in uploadLoop P e uploads Map.empty)"

definition calculateDiffScore :: "env \<Rightarrow> string \<Rightarrow> string \<Rightarrow> real io" where
  "calculateDiffScore e sid newImgHash =
     bind (capture_findFirst e sid) (\<lambda>previousCapture.
       case previousCapture of
         None \<Rightarrow> ret 0
       | Some previous \<Rightarrow> ret (if capture_imgHash previous = newImgHash then 0 else 1 / 2))"

subsection \<open>\<open>processJob\<close>\<close>

text \<open>
  The body of the \<open>try\<close> block. \<open>handleCookieBanners\<close> and \<open>scrollToLoadContent\<close> catch
  everything they throw and change nothing that is modelled, so they do not appear.
\<close>

definition tryBlock :: "platform \<Rightarrow> env \<Rightarrow> CaptureJob \<Rightarrow> jobResult io" where
  "tryBlock P e job =
     bind (screen_update e ScreenUpdateProcessing (screenId job)
            (\<lambda>row. row\<lparr>screen_status := ''processing''\<rparr>)) (\<lambda>_.
     bind (newPage e) (\<lambda>page.
     bind (attempt e SetViewportSize ()) (\<lambda>_.
     bind (attempt e Goto ()) (\<lambda>_.
     bind (attempt e WaitForTimeout ()) (\<lambda>_.
     bind (attempt e Screenshot (screenshotBytes e)) (\<lambda>screenshot.
     let etag = getEtag e; lastModified = getLastModified e in
     bind (getDomHash P e) (\<lambda>domHash.
     bind (processImage P e screenshot job) (\<lambda>images.
     bind (if withContent job
           then bind (extractText e RecognizeText screenshot) (\<lambda>text. ret (Some text))
           else ret None) (\<lambda>ocrText.
     let aiTags = generateAITags (unicodeLower P) (units (url job))
                    (map_option units ocrText) in
     bind (detectAndBlurPII e (img_png images)) (\<lambda>piiBlur.
     bind (uploadToS3 P e images job) (\<lambda>fileUrls.
     bind (screenFile_create e (\<lambda>i.
            \<lparr>file_id = i, file_screenId = screenId job, file_webpUrl = fileUrls ''webp'',
             file_pngUrl = fileUrls ''png'', file_thumbUrl = fileUrls ''thumb'',
             file_sha256 = img_sha256 images, file_imgHash = img_imgHash images\<rparr>))
       (\<lambda>screenFile.
     bind (calculateDiffScore e (screenId job) (img_imgHash images)) (\<lambda>diffScore.
     bind (capture_create e (\<lambda>i.
            \<lparr>capture_id = i, capture_screenId = screenId job, capture_etag = etag,
             capture_lastModified = lastModified, capture_domHash = domHash,
             capture_imgHash = img_imgHash images, capture_diffScore = diffScore,
             capture_changed = False\<rparr>)) (\<lambda>capture.
     bind (screen_update e ScreenUpdateCaptured (screenId job)
            (\<lambda>row. row\<lparr>screen_status := ''captured'', screen_ocrText := ocrText,
               screen_aiTags := aiTags, screen_piiBlur := piiBlur,
               screen_lastSeenAt := clock e\<rparr>)) (\<lambda>_.
     bind (page_close e) (\<lambda>_.
     ret \<lparr>success = True, res_screenId = screenId job, captureId = capture_id capture,
          fileId = file_id screenFile, res_urls = fileUrls\<rparr>))))))))))))))))"

text \<open>
  \<open>processJob\<close>: the check of the browser, the \<open>try\<close> block, and the \<open>catch\<close> handler,
  which sets the status to \<open>failed\<close> and throws the error again. When the update in the
  handler throws, that error leaves \<open>processJob\<close> instead.
\<close>

definition processJob :: "platform \<Rightarrow> env \<Rightarrow> CaptureWorker \<Rightarrow> CaptureJob \<Rightarrow> jobResult io" where
  "processJob P e this job w =
     (if \<not> browser this then (Inl BrowserNotInitialized, w)
      else case tryBlock P e job w of
             (Inr result, w') \<Rightarrow> (Inr result, w')
           | (Inl err, w') \<Rightarrow>
               (case screen_update e ScreenUpdateFailed (screenId job)
                       (\<lambda>row. row\<lparr>screen_status := ''failed''\<rparr>) w' of
                  (Inl err', w'') \<Rightarrow> (Inl err', w'')
                | (Inr _, w'') \<Rightarrow> (Inl err, w'')))"

text \<open>The status of a page, and the latest capture of a page.\<close>

definition statusOf :: "world \<Rightarrow> string \<Rightarrow> string option" where
  "statusOf w sid = map_option screen_status (screens w sid)"

definition previousCapture :: "world \<Rightarrow> string \<Rightarrow> capture option" where
  "previousCapture w sid = find (\<lambda>c. capture_screenId c = sid) (captures w)"

subsection \<open>Definitions used in the statements\<close>

text \<open>What \<open>calculateDiffScore\<close> returns for the result of its lookup.\<close>

definition diffScoreOf :: "capture option \<Rightarrow> string \<Rightarrow> real" where
  "diffScoreOf prev h = (case prev of None \<Rightarrow> 0 | Some p \<Rightarrow> if capture_imgHash p = h then 0 else 1 / 2)"

text \<open>The stages of \<open>processJob\<close> after the first insert into the database.\<close>

definition lateStages :: "stage set" where
  "lateStages = {CaptureFindFirst, CaptureCreate, ScreenUpdateCaptured, PageClose}"

text \<open>
  The stages a job reaches when nothing throws: the fixed ones, the text recognition
  when the job asks for content, and one upload for each key.
\<close>

definition jobStages :: "CaptureJob \<Rightarrow> stage set" where
  "jobStages job =
     {ScreenUpdateProcessing, NewPage, SetViewportSize, Goto, WaitForTimeout, Screenshot,
      PageContent, SharpWebp, SharpThumb, RecognizePii, ScreenFileCreate, CaptureFindFirst,
      CaptureCreate, ScreenUpdateCaptured, PageClose}
     \<union> (if withContent job then {RecognizeText} else {})
     \<union> S3Send ` set (uploadKeys job)"

text \<open>A worker processing a list of jobs one after the other, each in its own environment.\<close>

fun runJobs :: "platform \<Rightarrow> CaptureWorker \<Rightarrow> (env \<times> CaptureJob) list \<Rightarrow> world \<Rightarrow> world" where
  "runJobs P this [] w = w"
| "runJobs P this ((e, job) # jobs) w = runJobs P this jobs (snd (processJob P e this job w))"

subsection \<open>Examples\<close>

text \<open>
  The job of \<open>main\<close>, the same page at the mobile breakpoint, a store holding the page
  and no capture, stand-ins for the two hash functions that keep different inputs
  apart, the lower-case table of the range U+0080 to U+00FF, and environments: nothing
  throws (screenshots \<open>PNG-A\<close>, \<open>PNG-B\<close> and \<open>PNG-C\<close>, two DOM serializations), one
  stage throws, and navigation throws while the database rejects the status update of
  the handler as well.
\<close>

definition latin1Lower :: "nat list \<Rightarrow> nat list \<Rightarrow> nat \<Rightarrow> nat list" where
  "latin1Lower before after c = (if 192 \<le> c \<and> c \<le> 222 \<and> c \<noteq> 215 then [c + 32] else [c])"

definition exPlatform :: platform where
  "exPlatform = \<lparr>sha256Hex = (\<lambda>b. ''sha256:'' @ b), md5Hex = (\<lambda>b. ''md5:'' @ b),
     CDN_URL = ''https://cdn.example'', unicodeLower = latin1Lower\<rparr>"

definition mainJob :: CaptureJob where
  "mainJob = \<lparr>jobId = ''test-job'', url = ''https://www.apple.com/store'', breakpoint = desktop,
     width = 1440, height = 900, withContent = True, priority = 5, siteId = ''site-id'',
     screenId = ''screen-id''\<rparr>"

definition mobileJob :: CaptureJob where
  "mobileJob = mainJob\<lparr>breakpoint := mobile, width := 390, height := 844\<rparr>"

definition exWorker :: CaptureWorker where
  "exWorker = \<lparr>browser = True\<rparr>"

definition exEnv :: "(stage \<Rightarrow> bool) \<Rightarrow> buffer \<Rightarrow> string \<Rightarrow> env" where
  "exEnv f shot html = \<lparr>fails = f, screenshotBytes = shot, domContent = html,
     etagResponse = None, lastModifiedResponse = None, sharpWebp = (\<lambda>b. b),
     sharpThumb = take 2, recognize = (\<lambda>b. ''Store''), clock = 1\<rparr>"

definition exWorld :: world where
  "exWorld = \<lparr>screens = [''screen-id'' \<mapsto> \<lparr>screen_status = ''pending'', screen_ocrText = None,
       screen_aiTags = [], screen_piiBlur = False, screen_lastSeenAt = 0\<rparr>],
     screenFiles = [], captures = [], bucketObjects = Map.empty, pagesOpened = 0,
     pagesClosed = 0\<rparr>"

definition exEnvA :: env where
  "exEnvA = exEnv (\<lambda>st. False) ''PNG-A'' ''<html>one</html>''"

definition exEnvA2 :: env where
  "exEnvA2 = exEnv (\<lambda>st. False) ''PNG-A'' ''<html>two</html>''"

definition exEnvB :: env where
  "exEnvB = exEnv (\<lambda>st. False) ''PNG-B'' ''<html>one</html>''"

definition exEnvC2 :: env where
  "exEnvC2 = exEnv (\<lambda>st. False) ''PNG-C'' ''<html>two</html>''"

definition exEnvFailing :: "stage \<Rightarrow> env" where
  "exEnvFailing st = exEnv (\<lambda>s. s = st) ''PNG-A'' ''<html>one</html>''"

definition exEnvOutage :: env where
  "exEnvOutage = exEnv (\<lambda>s. s = Goto \<or> s = ScreenUpdateFailed) ''PNG-A'' ''<html>one</html>''"

text \<open>The store after the job of \<open>main\<close> has run on \<open>exWorld\<close> with the screenshot \<open>PNG-A\<close>.\<close>

definition exWorld1 :: world where
  "exWorld1 = snd (processJob exPlatform exEnvA exWorker mainJob exWorld)"

section \<open>Properties\<close>

subsection \<open>The tag classifier\<close>

lemma foldPairs_eq:
  "foldPairs = zip [65 ..< 91] (map (\<lambda>c. c + 32) [65 ..< 91]) @ [(8490, 107)]"
  by (simp add: foldPairs_def units_def)

lemma map_of_foldPairs:
  "map_of foldPairs c =
     (if 65 \<le> c \<and> c \<le> 90 then Some (c + 32) else if c = 8490 then Some 107 else None)"
proof -
  have "map_of (zip [65 ..< 91] (map (\<lambda>c. c + 32) [65 ..< 91])) c
      = (if c \<in> set [65 ..< 91] then Some (c + 32) else None)"
    by (simp only: map_of_zip_map)
  moreover have "c \<in> set [65 ..< 91] \<longleftrightarrow> 65 \<le> c \<and> c \<le> 90"
    by (simp only: set_upt) auto
  ultimately show ?thesis
    by (simp only: foldPairs_eq map_of_append) (simp add: map_add_def)
qed

lemma foldUnit_upper: "65 \<le> c \<Longrightarrow> c \<le> 90 \<Longrightarrow> foldUnit c = c + 32"
  by (simp add: foldUnit_def map_of_foldPairs)

lemma foldUnit_kelvin: "foldUnit 8490 = 107"
  by (simp add: foldUnit_def map_of_foldPairs)

lemma foldUnit_other: "c < 65 \<or> 90 < c \<Longrightarrow> c \<noteq> 8490 \<Longrightarrow> foldUnit c = c"
  by (auto simp: foldUnit_def map_of_foldPairs)

lemma foldUnit_lower: "asciiLower d \<Longrightarrow> foldUnit d = d"
  by (rule foldUnit_other) (auto simp: asciiLower_def)

text \<open>The three kinds of code unit, by what \<open>lowerUnit\<close> gives.\<close>

lemma lowerUnit_out:
  assumes "lowerTableOK tbl"
  shows "lowerUnit (tbl b a) c \<noteq> []"
    and "list_all (\<lambda>u. \<not> asciiLower u) (tl (lowerUnit (tbl b a) c))"
    and "asciiLower (hd (lowerUnit (tbl b a) c)) \<Longrightarrow>
           lowerUnit (tbl b a) c = [foldUnit c] \<or> lowerUnit (tbl b a) c = [105, 775]"
proof -
  consider "65 \<le> c \<and> c \<le> 90" | "c < 65 \<or> (90 < c \<and> c < 128)" | "c = 8490" | "c = 304"
    | "128 \<le> c \<and> c \<noteq> 8490 \<and> c \<noteq> 304"
    by arith
  then have "lowerUnit (tbl b a) c \<noteq> []
     \<and> list_all (\<lambda>u. \<not> asciiLower u) (tl (lowerUnit (tbl b a) c))
     \<and> (asciiLower (hd (lowerUnit (tbl b a) c)) \<longrightarrow>
           lowerUnit (tbl b a) c = [foldUnit c] \<or> lowerUnit (tbl b a) c = [105, 775])"
  proof cases
    case 1
    then show ?thesis by (simp add: lowerUnit_def foldUnit_upper)
  next
    case 2
    then have "foldUnit c = c" by (intro foldUnit_other) auto
    with 2 show ?thesis by (auto simp: lowerUnit_def)
  next
    case 3
    then show ?thesis by (simp add: lowerUnit_def foldUnit_kelvin)
  next
    case 4
    then show ?thesis by (simp add: lowerUnit_def asciiLower_def)
  next
    case 5
    with assms have o: "tbl b a c \<noteq> []" "list_all (\<lambda>u. \<not> asciiLower u) (tbl b a c)"
      by (auto simp: lowerTableOK_def)
    from 5 have l: "lowerUnit (tbl b a) c = tbl b a c" by (simp add: lowerUnit_def)
    from o have "\<not> asciiLower (hd (tbl b a c))" "list_all (\<lambda>u. \<not> asciiLower u) (tl (tbl b a c))"
      by (cases "tbl b a c"; simp)+
    with o l show ?thesis by simp
  qed
  then show "lowerUnit (tbl b a) c \<noteq> []"
    and "list_all (\<lambda>u. \<not> asciiLower u) (tl (lowerUnit (tbl b a) c))"
    and "asciiLower (hd (lowerUnit (tbl b a) c)) \<Longrightarrow>
           lowerUnit (tbl b a) c = [foldUnit c] \<or> lowerUnit (tbl b a) c = [105, 775]"
    by blast+
qed

lemma lowerUnit_same:
  assumes "sameIgnoringCase c d" and "asciiLower d"
  shows "lowerUnit other c = [d]"
proof -
  from assms have f: "foldUnit c = d"
    by (simp add: sameIgnoringCase_def foldUnit_lower)
  consider "65 \<le> c \<and> c \<le> 90" | "c < 65 \<or> (90 < c \<and> c < 128)" | "c = 8490"
    | "128 \<le> c \<and> c \<noteq> 8490"
    by arith
  then show ?thesis
  proof cases
    case 1
    with f show ?thesis by (simp add: lowerUnit_def foldUnit_upper)
  next
    case 2
    then have "foldUnit c = c" by (intro foldUnit_other) auto
    with 2 f show ?thesis by (auto simp: lowerUnit_def)
  next
    case 3
    with f show ?thesis by (simp add: lowerUnit_def foldUnit_kelvin)
  next
    case 4
    then have "foldUnit c = c" by (intro foldUnit_other) auto
    with 4 f assms(2) show ?thesis by (simp add: asciiLower_def)
  qed
qed

lemma sublist_skip:
  assumes "list_all (\<lambda>u. \<not> L u) xs" and "k \<noteq> []" and "L (hd k)" and "sublist k (xs @ R)"
  shows "sublist k R"
  using assms
proof (induction xs)
  case Nil
  then show ?case by simp
next
  case (Cons x xs)
  from Cons.prems(4) have "prefix k (x # xs @ R) \<or> sublist k (xs @ R)"
    by (simp add: sublist_Cons_right)
  moreover have "\<not> prefix k (x # xs @ R)"
  proof
    assume "prefix k (x # xs @ R)"
    with Cons.prems(2) have "hd k = x" by (cases k) auto
    with Cons.prems(1,3) show False by simp
  qed
  ultimately show ?case using Cons by simp
qed

lemma sublist_out:
  assumes "list_all (\<lambda>u. \<not> L u) (tl out)" and "k \<noteq> []" and "L (hd k)"
    and "sublist k (out @ R)"
  shows "prefix k (out @ R) \<or> sublist k R"
proof (cases out)
  case Nil
  with assms(4) show ?thesis by simp
next
  case (Cons x xs)
  with assms(4) have "prefix k (out @ R) \<or> sublist k (xs @ R)"
    by (simp add: sublist_Cons_right)
  with assms(1,2,3) Cons sublist_skip [of L xs k R] show ?thesis by auto
qed

text \<open>An occurrence of a keyword in the lower-cased string starts where the output of a
  code unit starts.\<close>

lemma occurrence_at_unit:
  assumes "lowerTableOK tbl" and "k \<noteq> []" and "asciiLower (hd k)"
    and "sublist k (lowerFrom tbl b s)"
  shows "\<exists>a r. s = a @ r \<and> prefix k (lowerFrom tbl (rev a @ b) r)"
  using assms(4)
proof (induction s arbitrary: b)
  case Nil
  with assms(2) show ?case by simp
next
  case (Cons c s)
  from Cons.prems have "sublist k (lowerUnit (tbl b s) c @ lowerFrom tbl (c # b) s)"
    by simp
  from sublist_out [OF lowerUnit_out(2) [OF assms(1)] assms(2,3) this]
  show ?case
  proof
    assume "prefix k (lowerUnit (tbl b s) c @ lowerFrom tbl (c # b) s)"
    then have "c # s = [] @ (c # s) \<and> prefix k (lowerFrom tbl (rev [] @ b) (c # s))"
      by simp
    then show ?thesis by blast
  next
    assume "sublist k (lowerFrom tbl (c # b) s)"
    from Cons.IH [OF this] obtain a r where "s = a @ r"
      "prefix k (lowerFrom tbl (rev a @ c # b) r)" by blast
    then have "c # s = (c # a) @ r \<and> prefix k (lowerFrom tbl (rev (c # a) @ b) r)"
      by simp
    then show ?thesis by blast
  qed
qed

lemma prefix_window:
  assumes "lowerTableOK tbl"
  shows "list_all asciiLower k \<Longrightarrow> k = [] \<or> last k \<noteq> 105 \<Longrightarrow> prefix k (lowerFrom tbl b s) \<Longrightarrow>
     \<exists>w r. s = w @ r \<and> list_all2 sameIgnoringCase w k"
proof (induction s arbitrary: k b)
  case Nil
  then show ?case by simp
next
  case (Cons c s)
  show ?case
  proof (cases k)
    case Nil
    then show ?thesis by simp
  next
    case k: (Cons d k')
    let ?out = "lowerUnit (tbl b s) c"
    from Cons.prems(1) k have d: "asciiLower d" and k': "list_all asciiLower k'" by simp_all
    from Cons.prems(3) k have p: "prefix (d # k') (?out @ lowerFrom tbl (c # b) s)" by simp
    from lowerUnit_out(1) [OF assms, of b s c] obtain x xs where out: "?out = x # xs"
      by (cases ?out) auto
    with p have "x = d" by simp
    with d out have "asciiLower (hd ?out)" by simp
    from lowerUnit_out(3) [OF assms this] show ?thesis
    proof
      assume single: "?out = [foldUnit c]"
      with out \<open>x = d\<close> have f: "foldUnit c = d" by simp
      with d have same: "sameIgnoringCase c d"
        by (simp add: sameIgnoringCase_def foldUnit_lower)
      from p single f have "prefix k' (lowerFrom tbl (c # b) s)" by simp
      moreover from Cons.prems(2) k have "k' = [] \<or> last k' \<noteq> 105" by auto
      ultimately obtain w r where "s = w @ r" "list_all2 sameIgnoringCase w k'"
        using Cons.IH [OF k'] by blast
      with same k have "c # s = (c # w) @ r \<and> list_all2 sameIgnoringCase (c # w) k"
        by simp
      then show ?thesis by blast
    next
      assume dotted: "?out = [105, 775]"
      with p have "d = 105" "prefix k' (775 # lowerFrom tbl (c # b) s)" by simp_all
      then have "k' = [] \<or> hd k' = 775" by (cases k') auto
      with k' have "k' = []" by (cases k') (auto simp: asciiLower_def)
      with Cons.prems(2) k \<open>d = 105\<close> show ?thesis by simp
    qed
  qed
qed

lemma lowerFrom_window:
  "list_all2 sameIgnoringCase w k \<Longrightarrow> list_all asciiLower k \<Longrightarrow>
     lowerFrom tbl b (w @ r) = k @ lowerFrom tbl (rev w @ b) r"
proof (induction w arbitrary: k b)
  case Nil
  then show ?case by simp
next
  case (Cons c w)
  then obtain d k' where k: "k = d # k'" "sameIgnoringCase c d" "list_all2 sameIgnoringCase w k'"
    by (cases k) auto
  with Cons.prems(2) have "asciiLower d" "list_all asciiLower k'" by simp_all
  with k Cons.IH [of k' "c # b"] lowerUnit_same [of c d "tbl b (w @ r)"]
  show ?case by simp
qed

lemma lowerFrom_append:
  "\<exists>y. lowerFrom tbl b (a @ r) = y @ lowerFrom tbl (rev a @ b) r"
proof (induction a arbitrary: b)
  case Nil
  then show ?case by simp
next
  case (Cons c a)
  from Cons.IH [of "c # b"] obtain y where
    "lowerFrom tbl (c # b) (a @ r) = y @ lowerFrom tbl (rev a @ c # b) r" by blast
  then have "lowerFrom tbl b ((c # a) @ r)
      = (lowerUnit (tbl b (a @ r)) c @ y) @ lowerFrom tbl (rev (c # a) @ b) r"
    by simp
  then show ?case by blast
qed

text \<open>The code against the words of the specification, for a keyword of lower-case ASCII
  letters that does not end in \<open>i\<close>.\<close>

lemma includesStr_lower_appears:
  assumes "lowerTableOK tbl" and "k \<noteq> []" and "list_all asciiLower k" and "last k \<noteq> 105"
  shows "includesStr (toLowerCase tbl s) k \<longleftrightarrow> appearsIgnoringCase k s"
proof
  assume "includesStr (toLowerCase tbl s) k"
  then have "sublist k (lowerFrom tbl [] s)"
    by (simp add: includesStr_def toLowerCase_def)
  moreover from assms(2,3) have "asciiLower (hd k)" by (cases k) auto
  ultimately obtain a r where s: "s = a @ r" and "prefix k (lowerFrom tbl (rev a @ []) r)"
    using occurrence_at_unit [OF assms(1,2)] by blast
  with prefix_window [OF assms(1,3), of "rev a @ []" r] assms(4)
  obtain w r' where "r = w @ r'" "list_all2 sameIgnoringCase w k" by blast
  with s show "appearsIgnoringCase k s"
    unfolding appearsIgnoringCase_def by blast
next
  assume "appearsIgnoringCase k s"
  then obtain pre w post where s: "s = pre @ w @ post" and w: "list_all2 sameIgnoringCase w k"
    unfolding appearsIgnoringCase_def by blast
  from lowerFrom_append [of tbl "[]" pre "w @ post"] obtain y where
    "lowerFrom tbl [] (pre @ w @ post) = y @ lowerFrom tbl (rev pre @ []) (w @ post)" by blast
  with lowerFrom_window [OF w assms(3), of tbl "rev pre @ []" post] s
  have "toLowerCase tbl s = y @ k @ lowerFrom tbl (rev w @ rev pre @ []) post"
    by (simp add: toLowerCase_def)
  then show "includesStr (toLowerCase tbl s) k"
    by (simp add: includesStr_def)
qed

lemma keywords_ok:
  "units ''checkout'' \<noteq> [] \<and> list_all asciiLower (units ''checkout'') \<and> last (units ''checkout'') \<noteq> 105"
  "units ''payment'' \<noteq> [] \<and> list_all asciiLower (units ''payment'') \<and> last (units ''payment'') \<noteq> 105"
  "units ''ticket'' \<noteq> [] \<and> list_all asciiLower (units ''ticket'') \<and> last (units ''ticket'') \<noteq> 105"
  "units ''event'' \<noteq> [] \<and> list_all asciiLower (units ''event'') \<and> last (units ''event'') \<noteq> 105"
  "units ''room'' \<noteq> [] \<and> list_all asciiLower (units ''room'') \<and> last (units ''room'') \<noteq> 105"
  by (simp_all add: units_def asciiLower_def)

lemma sameIgnoringCase_refl: "list_all2 sameIgnoringCase w w"
  by (simp add: list_all2_same sameIgnoringCase_def)

lemma includesStr_appears:
  assumes "includesStr s (p @ k)"
  shows "appearsIgnoringCase k s"
proof -
  from assms obtain pre post where "s = pre @ (p @ k) @ post"
    by (auto simp: includesStr_def sublist_def)
  then have "s = (pre @ p) @ k @ post" by simp
  with sameIgnoringCase_refl [of k] show ?thesis unfolding appearsIgnoringCase_def by blast
qed

lemma set_setAdd_step:
  "set (if c then setAdd tags x else tags) = (if c then {x} else {}) \<union> set tags"
  by (simp add: setAdd_def insert_absorb)

lemma distinct_setAdd_step:
  "distinct (if c then setAdd tags x else tags) = distinct tags"
  by (simp add: setAdd_def)

lemma mem_if_single: "l \<in> (if c then {x} else {}) \<longleftrightarrow> c \<and> l = x"
  by simp

lemma mem_five_rules:
  "l \<in> (if c5 then {x5} else {}) \<union> ((if c4 then {x4} else {}) \<union> ((if c3 then {x3} else {})
       \<union> ((if c2 then {x2} else {}) \<union> ((if c1 then {x1} else {}) \<union> set [])))) \<longleftrightarrow>
     (c1 \<and> l = x1) \<or> (c2 \<and> l = x2) \<or> (c3 \<and> l = x3) \<or> (c4 \<and> l = x4) \<or> (c5 \<and> l = x5)"
  by (simp only: Un_iff mem_if_single list.set empty_iff) blast

lemma pairs_five_ex:
  "(\<exists>k. (k, l) \<in> set [(k1, x1), (k2, x2), (k3, x3), (k4, x4), (k5, x5)] \<and> P k) \<longleftrightarrow>
     (P k1 \<and> l = x1) \<or> (P k2 \<and> l = x2) \<or> (P k3 \<and> l = x3) \<or> (P k4 \<and> l = x4)
     \<or> (P k5 \<and> l = x5)"
  by auto

lemma hit_iff:
  assumes "lowerTableOK tbl" and "k \<noteq> [] \<and> list_all asciiLower k \<and> last k \<noteq> 105"
  shows "(includesStr (toLowerCase tbl pageUrl) k
            \<or> includesStr (toLowerCase tbl (case ocrText of None \<Rightarrow> [] | Some t \<Rightarrow> t)) k)
         = (appearsIgnoringCase k pageUrl \<or> appearsIgnoringCase k (textOf ocrText))"
  using assms by (simp add: includesStr_lower_appears textOf_def)

lemma set_generateAITags:
  assumes "lowerTableOK tbl"
  shows "set (generateAITags tbl pageUrl ocrText) =
     (if appearsIgnoringCase (units ''room'') pageUrl
           \<or> appearsIgnoringCase (units ''room'') (textOf ocrText)
      then {''accommodation''} else {})
     \<union> ((if appearsIgnoringCase (units ''event'') pageUrl
           \<or> appearsIgnoringCase (units ''event'') (textOf ocrText)
      then {''event''} else {})
     \<union> ((if appearsIgnoringCase (units ''ticket'') pageUrl
           \<or> appearsIgnoringCase (units ''ticket'') (textOf ocrText)
      then {''ticket''} else {})
     \<union> ((if appearsIgnoringCase (units ''payment'') pageUrl
           \<or> appearsIgnoringCase (units ''payment'') (textOf ocrText)
      then {''payment''} else {})
     \<union> ((if appearsIgnoringCase (units ''checkout'') pageUrl
           \<or> appearsIgnoringCase (units ''checkout'') (textOf ocrText)
      then {''checkout''} else {}) \<union> set []))))"
  by (simp only: generateAITags_def Let_def set_setAdd_step
      hit_iff [OF assms keywords_ok(1)] hit_iff [OF assms keywords_ok(2)]
      hit_iff [OF assms keywords_ok(3)] hit_iff [OF assms keywords_ok(4)]
      hit_iff [OF assms keywords_ok(5)])

lemma distinct_generateAITags: "distinct (generateAITags tbl pageUrl ocrText)"
  by (simp only: generateAITags_def Let_def distinct_setAdd_step distinct.simps)

text \<open>
  C8. For every URL and every optional extracted text, \<open>generateAITags\<close> returns a list
  without duplicates; a label is in it exactly when its keyword of the vocabulary appears,
  case-insensitively, in the URL or in the text; and a URL that contains \<open>/checkout\<close>
  gets the label \<open>checkout\<close>. The part of the lower-case mapping outside ASCII is any
  table that yields no small ASCII letter.
\<close>

theorem generateAITags_spec:
  assumes "lowerTableOK tbl"
  shows "distinct (generateAITags tbl pageUrl ocrText)
   \<and> (\<forall>label. label \<in> set (generateAITags tbl pageUrl ocrText) \<longleftrightarrow>
        (\<exists>k. (k, label) \<in> set vocabulary
           \<and> (appearsIgnoringCase (units k) pageUrl
               \<or> appearsIgnoringCase (units k) (textOf ocrText))))
   \<and> (includesStr pageUrl (units ''/checkout'') \<longrightarrow>
        ''checkout'' \<in> set (generateAITags tbl pageUrl ocrText))"
proof (intro conjI allI impI)
  show "distinct (generateAITags tbl pageUrl ocrText)"
    by (rule distinct_generateAITags)
next
  fix label
  show "label \<in> set (generateAITags tbl pageUrl ocrText) \<longleftrightarrow>
        (\<exists>k. (k, label) \<in> set vocabulary
           \<and> (appearsIgnoringCase (units k) pageUrl
               \<or> appearsIgnoringCase (units k) (textOf ocrText)))"
    unfolding set_generateAITags [OF assms] vocabulary_def mem_five_rules pairs_five_ex
    by (rule refl)
next
  assume "includesStr pageUrl (units ''/checkout'')"
  then have "includesStr pageUrl (units ''/'' @ units ''checkout'')"
    by (simp add: units_def)
  then have "appearsIgnoringCase (units ''checkout'') pageUrl"
    by (rule includesStr_appears)
  then show "''checkout'' \<in> set (generateAITags tbl pageUrl ocrText)"
    unfolding set_generateAITags [OF assms] mem_five_rules by (intro disjI1 conjI refl)
qed

lemma latin1Lower_ok: "lowerTableOK latin1Lower"
  by (auto simp: lowerTableOK_def latin1Lower_def asciiLower_def)

text \<open>A URL and a text in capitals get all five labels, the Kelvin sign counts as
  \<open>k\<close>, and a URL without keyword gets none.\<close>

theorem generateAITags_spec_witness:
  "lowerTableOK latin1Lower
   \<and> appearsIgnoringCase (units ''checkout'') (units ''HTTPS://X.COM/CHECKOUT/PAYMENT'')
   \<and> ''checkout'' \<in> set (generateAITags latin1Lower (units ''HTTPS://X.COM/CHECKOUT/PAYMENT'')
         (Some (units ''Room EVENT Ticket'')))
   \<and> generateAITags latin1Lower (units ''HTTPS://X.COM/CHECKOUT/PAYMENT'')
         (Some (units ''Room EVENT Ticket''))
       = [''checkout'', ''payment'', ''ticket'', ''event'', ''accommodation'']
   \<and> generateAITags latin1Lower (units ''CHEC'' @ [8490] @ units ''OUT'') None = [''checkout'']
   \<and> generateAITags latin1Lower (units ''https://www.apple.com/store'') None = []"
proof -
  have "units ''HTTPS://X.COM/CHECKOUT/PAYMENT''
      = units ''HTTPS://X.COM/'' @ units ''CHECKOUT'' @ units ''/PAYMENT''"
    by (simp add: units_def)
  moreover have "list_all2 sameIgnoringCase (units ''CHECKOUT'') (units ''checkout'')"
    by (simp add: units_def sameIgnoringCase_def foldUnit_upper foldUnit_lower asciiLower_def)
  ultimately have a: "appearsIgnoringCase (units ''checkout'') (units ''HTTPS://X.COM/CHECKOUT/PAYMENT'')"
    unfolding appearsIgnoringCase_def by blast
  have v: "(''checkout'', ''checkout'') \<in> set vocabulary"
    by (simp add: vocabulary_def)
  note s = generateAITags_spec [OF latin1Lower_ok, of "units ''HTTPS://X.COM/CHECKOUT/PAYMENT''"
      "Some (units ''Room EVENT Ticket'')"]
  from s a v have m: "''checkout'' \<in> set (generateAITags latin1Lower
      (units ''HTTPS://X.COM/CHECKOUT/PAYMENT'') (Some (units ''Room EVENT Ticket'')))"
    by blast
  have e1: "generateAITags latin1Lower (units ''HTTPS://X.COM/CHECKOUT/PAYMENT'')
         (Some (units ''Room EVENT Ticket''))
       = [''checkout'', ''payment'', ''ticket'', ''event'', ''accommodation'']"
    by code_simp
  have e2: "generateAITags latin1Lower (units ''CHEC'' @ [8490] @ units ''OUT'') None = [''checkout'']"
    by code_simp
  have e3: "generateAITags latin1Lower (units ''https://www.apple.com/store'') None = []"
    by code_simp
  from latin1Lower_ok a m e1 e2 e3 show ?thesis by (intro conjI)
qed

subsection \<open>The PII patterns\<close>













subsection \<open>Awaited calls\<close>

lemma bind_Inr_iff:
  "bind m f w = (Inr y, w'') \<longleftrightarrow> (\<exists>x w'. m w = (Inr x, w') \<and> f x w' = (Inr y, w''))"
  by (auto simp: bind_def split: prod.splits sum.splits)

lemma bind_Inl_iff:
  "bind m f w = (Inl err, w'') \<longleftrightarrow>
     m w = (Inl err, w'') \<or> (\<exists>x w'. m w = (Inr x, w') \<and> f x w' = (Inl err, w''))"
  by (auto simp: bind_def split: prod.splits sum.splits)

lemma ret_iff:
  "ret x w = (Inr y, w') \<longleftrightarrow> y = x \<and> w' = w"
  "ret x w \<noteq> (Inl err, w')"
  by (auto simp: ret_def)

lemma attempt_iff:
  "attempt e st x w = (Inr y, w') \<longleftrightarrow> \<not> fails e st \<and> y = x \<and> w' = w"
  "attempt e st x w = (Inl err, w') \<longleftrightarrow> fails e st \<and> err = Thrown st \<and> w' = w"
  by (auto simp: attempt_def)

lemma screen_update_iff:
  "screen_update e st sid f w = (Inr u, w') \<longleftrightarrow>
     \<not> fails e st \<and> (\<exists>row. screens w sid = Some row \<and> w' = w\<lparr>screens := (screens w)(sid \<mapsto> f row)\<rparr>)"
  "screen_update e st sid f w = (Inl err, w') \<longleftrightarrow>
     w' = w \<and> (if fails e st then err = Thrown st else screens w sid = None \<and> err = RecordNotFound sid)"
  by (auto simp: screen_update_def split: option.splits)

lemma screenFile_create_iff:
  "screenFile_create e mk w = (Inr row, w') \<longleftrightarrow>
     \<not> fails e ScreenFileCreate \<and> row = mk (length (screenFiles w))
     \<and> w' = w\<lparr>screenFiles := mk (length (screenFiles w)) # screenFiles w\<rparr>"
  "screenFile_create e mk w = (Inl err, w') \<longleftrightarrow>
     fails e ScreenFileCreate \<and> err = Thrown ScreenFileCreate \<and> w' = w"
  by (auto simp: screenFile_create_def Let_def)

lemma capture_create_iff:
  "capture_create e mk w = (Inr row, w') \<longleftrightarrow>
     \<not> fails e CaptureCreate \<and> row = mk (length (captures w))
     \<and> w' = w\<lparr>captures := mk (length (captures w)) # captures w\<rparr>"
  "capture_create e mk w = (Inl err, w') \<longleftrightarrow>
     fails e CaptureCreate \<and> err = Thrown CaptureCreate \<and> w' = w"
  by (auto simp: capture_create_def Let_def)

lemma capture_findFirst_iff:
  "capture_findFirst e sid w = (Inr r, w') \<longleftrightarrow>
     \<not> fails e CaptureFindFirst \<and> r = previousCapture w sid \<and> w' = w"
  "capture_findFirst e sid w = (Inl err, w') \<longleftrightarrow>
     fails e CaptureFindFirst \<and> err = Thrown CaptureFindFirst \<and> w' = w"
  by (auto simp: capture_findFirst_def previousCapture_def)

lemma newPage_iff:
  "newPage e w = (Inr u, w') \<longleftrightarrow> \<not> fails e NewPage \<and> w' = w\<lparr>pagesOpened := Suc (pagesOpened w)\<rparr>"
  "newPage e w = (Inl err, w') \<longleftrightarrow> fails e NewPage \<and> err = Thrown NewPage \<and> w' = w"
  by (auto simp: newPage_def)

lemma page_close_iff:
  "page_close e w = (Inr u, w') \<longleftrightarrow> \<not> fails e PageClose \<and> w' = w\<lparr>pagesClosed := Suc (pagesClosed w)\<rparr>"
  "page_close e w = (Inl err, w') \<longleftrightarrow> fails e PageClose \<and> err = Thrown PageClose \<and> w' = w"
  by (auto simp: page_close_def)

lemma calculateDiffScore_iff:
  "calculateDiffScore e sid h w = (Inr d, w') \<longleftrightarrow>
     \<not> fails e CaptureFindFirst \<and> w' = w \<and> d = diffScoreOf (previousCapture w sid) h"
  "calculateDiffScore e sid h w = (Inl err, w') \<longleftrightarrow>
     fails e CaptureFindFirst \<and> err = Thrown CaptureFindFirst \<and> w' = w"
  by (auto simp: calculateDiffScore_def bind_Inr_iff bind_Inl_iff capture_findFirst_iff ret_iff diffScoreOf_def
      split: option.splits)

lemma uploadLoop_frame:
  "uploadLoop P e ups u w = (r, w') \<Longrightarrow> \<exists>b. w' = w\<lparr>bucketObjects := b\<rparr>"
proof (induction ups arbitrary: u w)
  case Nil
  then have "w' = w\<lparr>bucketObjects := bucketObjects w\<rparr>" by simp
  then show ?case by blast
next
  case (Cons a ups)
  obtain key body where a: "a = (key, body)" by (cases a)
  show ?case
  proof (cases "fails e (S3Send key)")
    case True
    with Cons.prems a have "w' = w\<lparr>bucketObjects := bucketObjects w\<rparr>"
      by (simp add: s3_send_def)
    then show ?thesis by blast
  next
    case False
    with Cons.prems a have
      "uploadLoop P e ups (u(urlKey key \<mapsto> CDN_URL P @ ''/'' @ key))
         (w\<lparr>bucketObjects := (bucketObjects w)(key \<mapsto> body)\<rparr>) = (r, w')"
      by (simp add: s3_send_def)
    from Cons.IH [OF this] show ?thesis by auto
  qed
qed

lemma uploadLoop_error:
  "uploadLoop P e ups u w = (Inl err, w') \<Longrightarrow>
     \<exists>key. err = Thrown (S3Send key) \<and> fails e (S3Send key)"
proof (induction ups arbitrary: u w)
  case Nil
  then show ?case by simp
next
  case (Cons a ups)
  obtain key body where a: "a = (key, body)" by (cases a)
  show ?case
  proof (cases "fails e (S3Send key)")
    case True
    with Cons.prems a show ?thesis by (auto simp add: s3_send_def)
  next
    case False
    with Cons.prems a have
      "uploadLoop P e ups (u(urlKey key \<mapsto> CDN_URL P @ ''/'' @ key))
         (w\<lparr>bucketObjects := (bucketObjects w)(key \<mapsto> body)\<rparr>) = (Inl err, w')"
      by (simp add: s3_send_def)
    from Cons.IH [OF this] show ?thesis .
  qed
qed

lemma uploadLoop_succeeds:
  "\<forall>key \<in> fst ` set ups. \<not> fails e (S3Send key) \<Longrightarrow> \<exists>r w'. uploadLoop P e ups u w = (Inr r, w')"
proof (induction ups arbitrary: u w)
  case Nil
  then show ?case by simp
next
  case (Cons a ups)
  obtain key body where a: "a = (key, body)" by (cases a)
  with Cons.prems have "\<not> fails e (S3Send key)" "\<forall>key \<in> fst ` set ups. \<not> fails e (S3Send key)"
    by auto
  with Cons.IH a show ?case by (simp add: s3_send_def)
qed

lemma uploadToS3_frame:
  "uploadToS3 P e images job w = (r, w') \<Longrightarrow> \<exists>b. w' = w\<lparr>bucketObjects := b\<rparr>"
  unfolding uploadToS3_def Let_def by (rule uploadLoop_frame)

lemma uploadToS3_Inr:
  "uploadToS3 P e images job w = (Inr r, w') \<Longrightarrow> \<exists>b. w' = w\<lparr>bucketObjects := b\<rparr>"
  by (rule uploadToS3_frame)

lemma uploadToS3_Inl:
  "uploadToS3 P e images job w = (Inl err, w') \<Longrightarrow>
     \<exists>b key. w' = w\<lparr>bucketObjects := b\<rparr> \<and> err = Thrown (S3Send key) \<and> fails e (S3Send key)"
  using uploadToS3_frame [of P e images job w "Inl err" w']
    uploadLoop_error [of P e _ Map.empty w err w']
  unfolding uploadToS3_def Let_def by blast

lemma uploadToS3_succeeds:
  "\<forall>key. \<not> fails e (S3Send key) \<Longrightarrow> \<exists>r w'. uploadToS3 P e images job w = (Inr r, w')"
  unfolding uploadToS3_def Let_def by (rule uploadLoop_succeeds) simp

lemma optional_text_iff:
  "(if c then bind (extractText e st b) (\<lambda>text. ret (Some text)) else ret None) w = (Inr x, w')
     \<longleftrightarrow> w' = w \<and> (c \<longrightarrow> \<not> fails e st) \<and> x = (if c then Some (recognize e b) else None)"
  "(if c then bind (extractText e st b) (\<lambda>text. ret (Some text)) else ret None) w = (Inl err, w')
     \<longleftrightarrow> c \<and> fails e st \<and> err = Thrown st \<and> w' = w"
  by (auto simp: extractText_def bind_Inr_iff bind_Inl_iff ret_iff attempt_iff)

lemmas io_iffs = optional_text_iff bind_Inr_iff bind_Inl_iff ret_iff attempt_iff screen_update_iff
  screenFile_create_iff capture_create_iff calculateDiffScore_iff newPage_iff page_close_iff

lemma tryBlock_Inr:
  assumes "tryBlock P e job w = (Inr r, w')"
  shows "\<exists>c f. captures w' = c # captures w \<and> screenFiles w' = f # screenFiles w
     \<and> capture_screenId c = screenId job \<and> file_screenId f = screenId job
     \<and> capture_imgHash c = md5Hex P (screenshotBytes e)
     \<and> file_imgHash f = md5Hex P (screenshotBytes e)
     \<and> file_sha256 f = sha256Hex P (screenshotBytes e)
     \<and> capture_domHash c = sha256Hex P (domContent e)
     \<and> capture_diffScore c = diffScoreOf (previousCapture w (screenId job)) (md5Hex P (screenshotBytes e))
     \<and> \<not> capture_changed c
     \<and> pagesOpened w' = Suc (pagesOpened w) \<and> pagesClosed w' = Suc (pagesClosed w)
     \<and> statusOf w' (screenId job) = Some ''captured''"
  using assms
  apply (simp add: tryBlock_def Let_def io_iffs getDomHash_def processImage_def detectAndBlurPII_def extractText_def)
  apply (elim exE conjE)
  apply (frule uploadToS3_frame)
  apply (auto simp: statusOf_def previousCapture_def)
  done


lemma tryBlock_Inl_error:
  assumes "tryBlock P e job w = (Inl err, w')"
  shows "(err = RecordNotFound (screenId job) \<and> screens w (screenId job) = None \<and> w' = w)
     \<or> (\<exists>st. err = Thrown st \<and> fails e st \<and> st \<noteq> ScreenUpdateFailed)"
  using assms
  apply (simp add: tryBlock_def Let_def io_iffs getDomHash_def processImage_def detectAndBlurPII_def extractText_def)
  apply (elim disjE exE conjE)
  apply (auto dest!: uploadToS3_Inr uploadToS3_Inl split: if_splits)
  done

lemma tryBlock_Inl_rows:
  assumes "tryBlock P e job w = (Inl err, w')"
  shows "(err \<notin> Thrown ` lateStages \<longrightarrow> screenFiles w' = screenFiles w \<and> captures w' = captures w)
    \<and> (err \<in> {Thrown CaptureFindFirst, Thrown CaptureCreate} \<longrightarrow>
         captures w' = captures w \<and> (\<exists>f. screenFiles w' = f # screenFiles w \<and> file_screenId f = screenId job))
    \<and> (err \<in> {Thrown ScreenUpdateCaptured, Thrown PageClose} \<longrightarrow>
         (\<exists>c f. captures w' = c # captures w \<and> screenFiles w' = f # screenFiles w
            \<and> file_screenId f = screenId job \<and> capture_screenId c = screenId job
            \<and> capture_imgHash c = file_imgHash f \<and> \<not> capture_changed c
            \<and> capture_diffScore c =
                diffScoreOf (previousCapture w (screenId job)) (md5Hex P (screenshotBytes e))))"
  using assms
  apply (simp add: tryBlock_def Let_def io_iffs getDomHash_def processImage_def detectAndBlurPII_def extractText_def)
  apply (elim disjE exE conjE)
  apply (auto simp: lateStages_def previousCapture_def dest!: uploadToS3_Inr uploadToS3_Inl
      split: if_splits)
  done

lemma tryBlock_Inl_pages:
  assumes "tryBlock P e job w = (Inl err, w')"
  shows "pagesClosed w' = pagesClosed w
    \<and> pagesOpened w' = (if err \<in> {RecordNotFound (screenId job), Thrown ScreenUpdateProcessing, Thrown NewPage}
         then pagesOpened w else Suc (pagesOpened w))"
  using assms
  apply (simp add: tryBlock_def Let_def io_iffs getDomHash_def processImage_def detectAndBlurPII_def extractText_def)
  apply (elim disjE exE conjE)
  apply (auto dest!: uploadToS3_Inr uploadToS3_Inl split: if_splits)
  done

lemma tryBlock_screens:
  assumes "tryBlock P e job w = (r, w')"
  shows "(screens w' (screenId job) = None \<longleftrightarrow> screens w (screenId job) = None)
     \<and> (\<forall>sid. sid \<noteq> screenId job \<longrightarrow> screens w' sid = screens w sid)"
proof (cases r)
  case (Inl err)
  with assms show ?thesis
  apply (simp add: tryBlock_def Let_def io_iffs getDomHash_def processImage_def detectAndBlurPII_def extractText_def)
  apply (elim disjE exE conjE)
  apply (auto dest!: uploadToS3_Inr uploadToS3_Inl split: if_splits)
  done
next
  case (Inr res)
  with assms show ?thesis
  apply (simp add: tryBlock_def Let_def io_iffs getDomHash_def processImage_def detectAndBlurPII_def extractText_def)
  apply (elim disjE exE conjE)
  apply (auto dest!: uploadToS3_Inr uploadToS3_Inl split: if_splits)
  done
qed

lemma tryBlock_succeeds:
  assumes "screens w (screenId job) = Some row" and "\<forall>st. \<not> fails e st"
  shows "\<exists>r w'. tryBlock P e job w = (Inr r, w')"
proof -
  obtain x y where "tryBlock P e job w = (x, y)" by (cases "tryBlock P e job w")
  show ?thesis
  proof (cases x)
    case (Inl err)
    with \<open>tryBlock P e job w = (x, y)\<close> tryBlock_Inl_error [of P e job w err y] assms
    show ?thesis by auto
  next
    case (Inr res)
    with \<open>tryBlock P e job w = (x, y)\<close> show ?thesis by blast
  qed
qed

subsection \<open>The orchestrator\<close>

lemma tryBlock_Inr_stages:
  assumes "tryBlock P e job w = (Inr r, w')"
  shows "\<not> fails e ScreenUpdateProcessing \<and> \<not> fails e NewPage \<and> \<not> fails e SetViewportSize
     \<and> \<not> fails e Goto \<and> \<not> fails e WaitForTimeout \<and> \<not> fails e Screenshot
     \<and> \<not> fails e PageContent \<and> \<not> fails e SharpWebp \<and> \<not> fails e SharpThumb
     \<and> \<not> fails e RecognizePii \<and> \<not> fails e ScreenFileCreate \<and> \<not> fails e CaptureFindFirst
     \<and> \<not> fails e CaptureCreate \<and> \<not> fails e ScreenUpdateCaptured \<and> \<not> fails e PageClose
     \<and> screens w (screenId job) \<noteq> None"
  using assms
  apply (simp add: tryBlock_def Let_def io_iffs getDomHash_def processImage_def detectAndBlurPII_def extractText_def)
  apply (elim exE conjE)
  apply (frule uploadToS3_frame)
  apply auto
  done

lemma processJob_Inr_iff:
  "processJob P e this job w = (Inr r, w') \<longleftrightarrow> browser this \<and> tryBlock P e job w = (Inr r, w')"
  by (auto simp: processJob_def split: prod.splits sum.splits)

lemma processJob_Inl_iff:
  "processJob P e this job w = (Inl err, w') \<longleftrightarrow>
     (\<not> browser this \<and> err = BrowserNotInitialized \<and> w' = w)
     \<or> (browser this \<and> (\<exists>err0 w0. tryBlock P e job w = (Inl err0, w0)
          \<and> (if fails e ScreenUpdateFailed then err = Thrown ScreenUpdateFailed \<and> w' = w0
              else case screens w0 (screenId job) of
                     None \<Rightarrow> err = RecordNotFound (screenId job) \<and> w' = w0
                   | Some row \<Rightarrow> err = err0
                       \<and> w' = w0\<lparr>screens := (screens w0)(screenId job \<mapsto> row\<lparr>screen_status := ''failed''\<rparr>)\<rparr>)))"
  by (auto simp: processJob_def screen_update_def split: prod.splits sum.splits option.splits)

lemma processJob_succeeds:
  assumes "browser this" and "screens w (screenId job) = Some row" and "\<forall>st. \<not> fails e st"
  shows "\<exists>r w'. processJob P e this job w = (Inr r, w')"
  using tryBlock_succeeds [OF assms(2,3), of P] assms(1) by (auto simp: processJob_Inr_iff)

text \<open>A successful job: the two new rows.\<close>

lemma processJob_Inr_rows:
  assumes "processJob P e this job w = (Inr r, w')"
  shows "\<exists>c f. captures w' = c # captures w \<and> screenFiles w' = f # screenFiles w
     \<and> capture_screenId c = screenId job \<and> file_screenId f = screenId job
     \<and> capture_imgHash c = md5Hex P (screenshotBytes e)
     \<and> file_imgHash f = md5Hex P (screenshotBytes e)
     \<and> capture_domHash c = sha256Hex P (domContent e)
     \<and> capture_diffScore c = diffScoreOf (previousCapture w (screenId job)) (md5Hex P (screenshotBytes e))
     \<and> \<not> capture_changed c"
  using assms tryBlock_Inr [of P e job w r w'] by (auto simp: processJob_Inr_iff)

text \<open>A failed job with a working handler: what the handler leaves.\<close>

lemma processJob_Inl_handler:
  assumes "processJob P e this job w = (Inl err, w')" and "browser this"
    and "screens w (screenId job) \<noteq> None" and "\<not> fails e ScreenUpdateFailed"
  shows "\<exists>w0. tryBlock P e job w = (Inl err, w0) \<and> statusOf w' (screenId job) = Some ''failed''
     \<and> screenFiles w' = screenFiles w0 \<and> captures w' = captures w0
     \<and> pagesOpened w' = pagesOpened w0 \<and> pagesClosed w' = pagesClosed w0"
proof -
  from assms(1,2,4) obtain err0 w0 where t: "tryBlock P e job w = (Inl err0, w0)"
    and h: "case screens w0 (screenId job) of
              None \<Rightarrow> err = RecordNotFound (screenId job) \<and> w' = w0
            | Some row \<Rightarrow> err = err0
                \<and> w' = w0\<lparr>screens := (screens w0)(screenId job \<mapsto> row\<lparr>screen_status := ''failed''\<rparr>)\<rparr>"
    by (auto simp: processJob_Inl_iff)
  from tryBlock_screens [OF t] assms(3) obtain row where "screens w0 (screenId job) = Some row"
    by auto
  with h t show ?thesis by (auto simp: statusOf_def)
qed

lemma diffScoreOf_values: "diffScoreOf prev h = 0 \<or> diffScoreOf prev h = 1 / 2"
  by (simp add: diffScoreOf_def split: option.splits)

lemma previousCapture_None_iff:
  "previousCapture w sid = None \<longleftrightarrow> (\<forall>c \<in> set (captures w). capture_screenId c \<noteq> sid)"
  by (auto simp: previousCapture_def find_None_iff)

text \<open>
  C4. For every page that has no prior capture row, \<open>calculateDiffScore\<close> returns 0
  (whenever its lookup does not throw), and the capture that a successful job persists
  for the page has \<open>diffScore = 0\<close> and \<open>changed = false\<close>: the first capture is a
  baseline.
\<close>

theorem first_capture_is_baseline:
  assumes "\<forall>c \<in> set (captures w). capture_screenId c \<noteq> screenId job"
  shows "(\<not> fails e CaptureFindFirst \<longrightarrow> calculateDiffScore e (screenId job) h w = (Inr 0, w))
     \<and> (processJob P e this job w = (Inr r, w') \<longrightarrow>
          (\<exists>c. captures w' = c # captures w \<and> capture_screenId c = screenId job
             \<and> capture_diffScore c = 0 \<and> \<not> capture_changed c))"
proof -
  from assms have none: "previousCapture w (screenId job) = None"
    by (simp add: previousCapture_None_iff)
  have "\<not> fails e CaptureFindFirst \<longrightarrow> calculateDiffScore e (screenId job) h w = (Inr 0, w)"
    by (simp add: calculateDiffScore_iff none diffScoreOf_def)
  moreover have "processJob P e this job w = (Inr r, w') \<longrightarrow>
          (\<exists>c. captures w' = c # captures w \<and> capture_screenId c = screenId job
             \<and> capture_diffScore c = 0 \<and> \<not> capture_changed c)"
    using processJob_Inr_rows [of P e this job w r w'] by (auto simp: none diffScoreOf_def)
  ultimately show ?thesis by blast
qed

text \<open>
  C5. Two consecutive captures of the same page with identical screenshot bytes: the
  second has \<open>diffScore = 0\<close> and \<open>changed = false\<close>, whatever the two DOM
  serializations are (the environments \<open>e1\<close> and \<open>e2\<close> agree on the screenshot only).
  Other jobs may run in between as long as the latest capture of the page stays.
\<close>

theorem identical_screenshot_scores_zero:
  assumes "processJob P e1 this1 job1 w0 = (Inr r1, w1)"
    and "previousCapture w1' (screenId job1) = previousCapture w1 (screenId job1)"
    and "processJob P e2 this2 job2 w1' = (Inr r2, w2)"
    and "screenId job2 = screenId job1"
    and "screenshotBytes e2 = screenshotBytes e1"
  shows "\<exists>c. captures w2 = c # captures w1' \<and> capture_screenId c = screenId job2
     \<and> capture_diffScore c = 0 \<and> \<not> capture_changed c"
proof -
  from processJob_Inr_rows [OF assms(1)] obtain c1 where
    "captures w1 = c1 # captures w0" "capture_screenId c1 = screenId job1"
    "capture_imgHash c1 = md5Hex P (screenshotBytes e1)"
    by blast
  then have "previousCapture w1 (screenId job1) = Some c1"
    by (simp add: previousCapture_def)
  with assms(2,4,5) \<open>capture_imgHash c1 = md5Hex P (screenshotBytes e1)\<close>
  have "diffScoreOf (previousCapture w1' (screenId job2)) (md5Hex P (screenshotBytes e2)) = 0"
    by (simp add: diffScoreOf_def)
  with processJob_Inr_rows [OF assms(3)] show ?thesis by auto
qed

text \<open>
  C1. The changed flag does not follow the diff score. A successful job on a page whose
  latest capture has another image hash persists \<open>diffScore = 0.5\<close>, which exceeds the
  threshold 0.1, and \<open>changed = false\<close>: \<open>processJob\<close> writes the literal \<open>false\<close>
  (its comment: "Will be calculated based on diff score") and nothing sets it later.
\<close>

theorem changed_flag_never_set:
  assumes "processJob P e this job w = (Inr r, w')"
    and "previousCapture w (screenId job) = Some p"
    and "capture_imgHash p \<noteq> md5Hex P (screenshotBytes e)"
  shows "\<exists>c. captures w' = c # captures w \<and> capture_diffScore c = 1 / 2
     \<and> 1 / 10 < capture_diffScore c \<and> capture_changed c = False"
  using processJob_Inr_rows [OF assms(1)] assms(2,3) by (auto simp: diffScoreOf_def)

text \<open>
  C6, as amended. The change detector has no fallback for a changed viewport: it looks
  neither at pixel dimensions nor at DOM hashes. The diff score of a capture of a page
  that has a previous capture is 0 when the image hash of that capture equals the new
  one and 0.5 otherwise, so two jobs for the page whose screenshots compare alike with
  the previous image hash get the same score, whatever the width, height, breakpoint
  and DOM serialization of each. The capture row has no field for the kind of
  comparison.
\<close>

theorem diffScore_ignores_dimensions_and_dom:
  assumes "processJob P e this job w = (Inr r, w')"
    and "processJob P e' this' job' w = (Inr r', w'')"
    and "screenId job' = screenId job"
    and "previousCapture w (screenId job) = Some p"
    and "(capture_imgHash p = md5Hex P (screenshotBytes e'))
           = (capture_imgHash p = md5Hex P (screenshotBytes e))"
  shows "\<exists>c c'. captures w' = c # captures w \<and> captures w'' = c' # captures w
     \<and> capture_diffScore c' = capture_diffScore c
     \<and> capture_diffScore c =
         (if capture_imgHash p = md5Hex P (screenshotBytes e) then 0 else 1 / 2)"
  using processJob_Inr_rows [OF assms(1)] processJob_Inr_rows [OF assms(2)] assms(3,4,5)
  by (auto simp: diffScoreOf_def)

text \<open>
  C2, as amended. A job on an existing page fails inside the \<open>try\<close> block and the status
  update of the \<open>catch\<close> handler succeeds: the page status is \<open>failed\<close>, the error of the
  failing stage is thrown again, and when the stage is any stage before the first insert
  (the uploads among them) no capture row and no file row is created. A failure at the
  lookup of the previous capture or at the insert of the capture leaves the file row of
  the job; a failure at the final page update or at \<open>page.close\<close> leaves both rows.
\<close>

theorem failed_job_status_and_rows:
  assumes "processJob P e this job w = (Inl err, w')" and "browser this"
    and "screens w (screenId job) \<noteq> None" and "\<not> fails e ScreenUpdateFailed"
  shows "statusOf w' (screenId job) = Some ''failed''
     \<and> (\<exists>st. err = Thrown st \<and> fails e st \<and> st \<noteq> ScreenUpdateFailed)
     \<and> (err \<notin> Thrown ` lateStages \<longrightarrow>
           screenFiles w' = screenFiles w \<and> captures w' = captures w)
     \<and> (err \<in> {Thrown CaptureFindFirst, Thrown CaptureCreate} \<longrightarrow>
           captures w' = captures w
           \<and> (\<exists>f. screenFiles w' = f # screenFiles w \<and> file_screenId f = screenId job))
     \<and> (err \<in> {Thrown ScreenUpdateCaptured, Thrown PageClose} \<longrightarrow>
           (\<exists>c f. captures w' = c # captures w \<and> screenFiles w' = f # screenFiles w
              \<and> file_screenId f = screenId job \<and> capture_screenId c = screenId job))"
proof -
  from processJob_Inl_handler [OF assms] obtain w0 where
    t: "tryBlock P e job w = (Inl err, w0)" and s: "statusOf w' (screenId job) = Some ''failed''"
    and eq: "screenFiles w' = screenFiles w0" "captures w' = captures w0"
    by blast
  from tryBlock_Inl_error [OF t] assms(3)
  have "\<exists>st. err = Thrown st \<and> fails e st \<and> st \<noteq> ScreenUpdateFailed"
    by auto
  with s tryBlock_Inl_rows [OF t] eq show ?thesis
    by (simp only:) blast
qed

lemma processJob_Inl_tryBlock:
  assumes "processJob P e this job w = (Inl err, w')" and "browser this"
  shows "\<exists>err0 w0. tryBlock P e job w = (Inl err0, w0)
     \<and> screenFiles w' = screenFiles w0 \<and> captures w' = captures w0
     \<and> pagesOpened w' = pagesOpened w0 \<and> pagesClosed w' = pagesClosed w0"
  using assms by (auto simp: processJob_Inl_iff split: if_splits option.splits)

text \<open>
  C3. The page that \<open>processJob\<close> opens is closed on the successful path only. When the
  job succeeds one page is opened and one is closed; when it fails after \<open>newPage\<close>
  one page is opened and none is closed: the \<open>catch\<close> handler has no \<open>page.close()\<close>.
\<close>

theorem page_closed_only_on_success:
  assumes "browser this" and "screens w (screenId job) \<noteq> None"
    and "\<not> fails e ScreenUpdateProcessing" and "\<not> fails e NewPage"
  shows "(processJob P e this job w = (Inr r, w') \<longrightarrow>
            pagesOpened w' = Suc (pagesOpened w) \<and> pagesClosed w' = Suc (pagesClosed w))
     \<and> (processJob P e this job w = (Inl err, w') \<longrightarrow>
            pagesOpened w' = Suc (pagesOpened w) \<and> pagesClosed w' = pagesClosed w)"
proof -
  have "pagesOpened w' = Suc (pagesOpened w) \<and> pagesClosed w' = Suc (pagesClosed w)"
    if "processJob P e this job w = (Inr r, w')"
  proof -
    from that have "tryBlock P e job w = (Inr r, w')"
      by (simp add: processJob_Inr_iff)
    from tryBlock_Inr [OF this] show ?thesis by blast
  qed
  moreover have "pagesOpened w' = Suc (pagesOpened w) \<and> pagesClosed w' = pagesClosed w"
    if f: "processJob P e this job w = (Inl err, w')"
  proof -
    from processJob_Inl_tryBlock [OF f assms(1)] obtain err0 w0 where
      t: "tryBlock P e job w = (Inl err0, w0)"
      and eq: "pagesOpened w' = pagesOpened w0" "pagesClosed w' = pagesClosed w0"
      by blast
    from tryBlock_Inl_error [OF t] assms(2,3,4)
    have "err0 \<notin> {RecordNotFound (screenId job), Thrown ScreenUpdateProcessing, Thrown NewPage}"
      by auto
    with tryBlock_Inl_pages [OF t] eq show ?thesis by simp
  qed
  ultimately show ?thesis by blast
qed

text \<open>
  C7, as amended. A successful job adds exactly one capture row and one file row, both
  of the job's page and with the same image hash; a capture row is never added without
  its file row. The two rows are written by two separate inserts, the file row first:
  when the capture table is unchanged the file table is unchanged too, unless the
  lookup of the previous capture or the insert of the capture threw, which leaves the
  file row without a capture row.
\<close>

theorem capture_and_artifact_rows:
  assumes "processJob P e this job w = (r, w')"
  shows "(\<not> isl r \<longrightarrow>
           (\<exists>c f. captures w' = c # captures w \<and> screenFiles w' = f # screenFiles w
              \<and> capture_screenId c = screenId job \<and> file_screenId f = screenId job
              \<and> capture_imgHash c = file_imgHash f))
     \<and> (captures w' \<noteq> captures w \<longrightarrow>
           (\<exists>c f. captures w' = c # captures w \<and> screenFiles w' = f # screenFiles w
              \<and> capture_screenId c = screenId job \<and> file_screenId f = screenId job
              \<and> capture_imgHash c = file_imgHash f))
     \<and> (captures w' = captures w \<longrightarrow>
           screenFiles w' = screenFiles w
           \<or> (isl r \<and> (fails e CaptureFindFirst \<or> fails e CaptureCreate)
               \<and> (\<exists>f. screenFiles w' = f # screenFiles w \<and> file_screenId f = screenId job)))"
proof (cases r)
  case (Inr res)
  with assms have "processJob P e this job w = (Inr res, w')" by simp
  from processJob_Inr_rows [OF this] Inr show ?thesis by auto
next
  case (Inl err)
  with assms have f: "processJob P e this job w = (Inl err, w')" by simp
  show ?thesis
  proof (cases "browser this")
    case False
    with f have "w' = w" by (simp add: processJob_Inl_iff)
    with Inl show ?thesis by simp
  next
    case True
    with f obtain err0 w0 where t: "tryBlock P e job w = (Inl err0, w0)"
      and eq: "screenFiles w' = screenFiles w0" "captures w' = captures w0"
      by (auto simp: processJob_Inl_iff split: if_splits option.splits)
    from tryBlock_Inl_error [OF t] tryBlock_Inl_rows [OF t] eq Inl
    show ?thesis
      by (auto simp: lateStages_def)
  qed
qed

lemma processJob_scores:
  assumes "processJob P e this job w = (r, w')"
    and "\<forall>c \<in> set (captures w). capture_diffScore c = 0 \<or> capture_diffScore c = 1 / 2"
  shows "\<forall>c \<in> set (captures w'). capture_diffScore c = 0 \<or> capture_diffScore c = 1 / 2"
proof (cases r)
  case (Inr res)
  with assms(1) have "processJob P e this job w = (Inr res, w')" by simp
  from processJob_Inr_rows [OF this] assms(2) diffScoreOf_values show ?thesis
    by (metis set_ConsD)
next
  case (Inl err)
  with assms(1) have f: "processJob P e this job w = (Inl err, w')" by simp
  show ?thesis
  proof (cases "browser this")
    case False
    with f have "w' = w" by (simp add: processJob_Inl_iff)
    with assms(2) show ?thesis by simp
  next
    case True
    with f obtain err0 w0 where t: "tryBlock P e job w = (Inl err0, w0)"
      and eq: "captures w' = captures w0"
      by (auto simp: processJob_Inl_iff split: if_splits option.splits)
    from tryBlock_Inl_rows [OF t]
    have "captures w0 = captures w
      \<or> (\<exists>c. captures w0 = c # captures w \<and> capture_diffScore c =
            diffScoreOf (previousCapture w (screenId job)) (md5Hex P (screenshotBytes e)))"
      by (cases "err0 \<in> Thrown ` lateStages") (auto simp: lateStages_def)
    with eq assms(2) diffScoreOf_values show ?thesis
      by (metis set_ConsD)
  qed
qed

lemma runJobs_scores:
  "\<forall>c \<in> set (captures w). capture_diffScore c = 0 \<or> capture_diffScore c = 1 / 2 \<Longrightarrow>
   \<forall>c \<in> set (captures (runJobs P this jobs w)). capture_diffScore c = 0 \<or> capture_diffScore c = 1 / 2"
proof (induction jobs arbitrary: w)
  case Nil
  then show ?case by simp
next
  case (Cons a jobs)
  obtain e job where a: "a = (e, job)" by (cases a)
  have "processJob P e this job w = (fst (processJob P e this job w), snd (processJob P e this job w))"
    by simp
  from processJob_scores [OF this Cons.prems]
  show ?case unfolding a runJobs.simps by (rule Cons.IH)
qed

text \<open>
  C10. \<open>calculateDiffScore\<close> throws when its lookup throws and otherwise returns 0 (no
  previous capture of the page, or its image hash equals the new one) or 0.5 (the hashes
  differ), leaving the store as it is. Whatever jobs a worker processes, in whatever
  environments, every capture row has the score 0 or 0.5 if those of the store it
  started from do (none, for an empty table).
\<close>

theorem diffScore_is_zero_or_half:
  "calculateDiffScore e sid h w =
     (if fails e CaptureFindFirst then (Inl (Thrown CaptureFindFirst), w)
      else (Inr (case previousCapture w sid of
                   None \<Rightarrow> 0
                 | Some p \<Rightarrow> if capture_imgHash p = h then 0 else 1 / 2), w))
   \<and> ((\<forall>c \<in> set (captures w). capture_diffScore c = 0 \<or> capture_diffScore c = 1 / 2) \<longrightarrow>
        (\<forall>c \<in> set (captures (runJobs P this jobs w)).
           capture_diffScore c = 0 \<or> capture_diffScore c = 1 / 2))"
proof -
  obtain x y where xy: "calculateDiffScore e sid h w = (x, y)"
    by (cases "calculateDiffScore e sid h w")
  have "calculateDiffScore e sid h w =
     (if fails e CaptureFindFirst then (Inl (Thrown CaptureFindFirst), w)
      else (Inr (diffScoreOf (previousCapture w sid) h), w))"
    using xy by (cases x) (auto simp: calculateDiffScore_iff)
  then show ?thesis using runJobs_scores [of w P this jobs]
    by (simp add: diffScoreOf_def)
qed

lemma uploadLoop_Inr_keys:
  "uploadLoop P e ups u w = (Inr r, w') \<Longrightarrow> \<forall>key \<in> fst ` set ups. \<not> fails e (S3Send key)"
proof (induction ups arbitrary: u w)
  case Nil
  then show ?case by simp
next
  case (Cons a ups)
  obtain key body where a: "a = (key, body)" by (cases a)
  show ?case
  proof (cases "fails e (S3Send key)")
    case True
    with Cons.prems a show ?thesis by (simp add: s3_send_def)
  next
    case False
    with Cons.prems a have
      "uploadLoop P e ups (u(urlKey key \<mapsto> CDN_URL P @ ''/'' @ key))
         (w\<lparr>bucketObjects := (bucketObjects w)(key \<mapsto> body)\<rparr>) = (Inr r, w')"
      by (simp add: s3_send_def)
    from Cons.IH [OF this] False a show ?thesis by simp
  qed
qed

lemma uploadToS3_Inr_keys:
  assumes "uploadToS3 P e images job w = (Inr r, w')"
  shows "\<forall>key \<in> set (uploadKeys job). \<not> fails e (S3Send key)"
proof -
  have "fst ` set (zip (uploadKeys job) [img_webp images, img_png images, img_thumb images])
      = set (uploadKeys job)"
    by (simp add: uploadKeys_def Let_def)
  with uploadLoop_Inr_keys [OF assms [unfolded uploadToS3_def Let_def]] show ?thesis
    by simp
qed

lemma tryBlock_Inr_jobStages:
  assumes "tryBlock P e job w = (Inr r, w')"
  shows "\<forall>st \<in> jobStages job. \<not> fails e st"
  using assms
  apply (simp add: tryBlock_def Let_def io_iffs getDomHash_def processImage_def detectAndBlurPII_def extractText_def)
  apply (elim exE conjE)
  apply (frule uploadToS3_Inr_keys)
  apply (auto simp: jobStages_def)
  done

lemma tryBlock_Inl_status:
  assumes "tryBlock P e job w = (Inl err, w')"
    and "err \<notin> {RecordNotFound (screenId job), Thrown ScreenUpdateProcessing}"
  shows "statusOf w' (screenId job) = Some (if err = Thrown PageClose then ''captured'' else ''processing'')"
  using assms
  apply (simp add: tryBlock_def Let_def io_iffs getDomHash_def processImage_def detectAndBlurPII_def extractText_def)
  apply (elim disjE exE conjE)
  apply (auto simp: statusOf_def dest!: uploadToS3_Inr uploadToS3_Inl split: if_splits)
  done

lemma processJob_single_failure:
  assumes "browser this" and "screens w (screenId job) \<noteq> None" and "st \<in> jobStages job"
    and "\<forall>s. fails e s \<longleftrightarrow> s = st"
  shows "\<exists>w'. processJob P e this job w = (Inl (Thrown st), w')"
proof -
  obtain x y where xy: "processJob P e this job w = (x, y)"
    by (cases "processJob P e this job w")
  show ?thesis
  proof (cases x)
    case (Inr r)
    with xy have "tryBlock P e job w = (Inr r, y)" by (simp add: processJob_Inr_iff)
    from tryBlock_Inr_jobStages [OF this] assms(3,4) show ?thesis by blast
  next
    case (Inl err)
    from assms(3,4) have nf: "\<not> fails e ScreenUpdateFailed"
      by (auto simp: jobStages_def split: if_splits)
    from xy Inl have f: "processJob P e this job w = (Inl err, y)" by simp
    from processJob_Inl_handler [OF f assms(1,2) nf] obtain w0 where
      "tryBlock P e job w = (Inl err, w0)" by blast
    from tryBlock_Inl_error [OF this] assms(2,4) have "err = Thrown st" by auto
    with f show ?thesis by blast
  qed
qed

lemma processJob_outage:
  assumes "browser this" and "screens w (screenId job) \<noteq> None"
    and "\<forall>s. fails e s \<longleftrightarrow> s = Goto \<or> s = ScreenUpdateFailed"
    and "processJob P e this job w = (x, w')"
  shows "x = Inl (Thrown ScreenUpdateFailed) \<and> statusOf w' (screenId job) = Some ''processing''"
proof (cases x)
  case (Inr r)
  with assms(4) have "tryBlock P e job w = (Inr r, w')" by (simp add: processJob_Inr_iff)
  from tryBlock_Inr_stages [OF this] assms(3) show ?thesis by blast
next
  case (Inl err)
  with assms(1,3,4) obtain err0 where t: "tryBlock P e job w = (Inl err0, w')"
    and e: "err = Thrown ScreenUpdateFailed"
    by (auto simp: processJob_Inl_iff)
  from tryBlock_Inl_error [OF t] assms(2,3) have "err0 = Thrown Goto" by auto
  with tryBlock_Inl_status [OF t] have "statusOf w' (screenId job) = Some ''processing''"
    by simp
  with e Inl show ?thesis by simp
qed

text \<open>Facts about the examples.\<close>

lemma ex_page: "browser exWorker" "screens exWorld (screenId mainJob) \<noteq> None"
  "screenId mainJob = ''screen-id''" "screenId mobileJob = ''screen-id''"
  "captures exWorld = []" "screenFiles exWorld = []" "pagesOpened exWorld = 0"
  "pagesClosed exWorld = 0"
  by (simp_all add: exWorker_def exWorld_def mainJob_def mobileJob_def)

lemma ex_env:
  "fails (exEnv f shot html) = f" "screenshotBytes (exEnv f shot html) = shot"
  "domContent (exEnv f shot html) = html"
  by (simp_all add: exEnv_def)

lemma ex_platform: "md5Hex exPlatform b = ''md5:'' @ b" "sha256Hex exPlatform b = ''sha256:'' @ b"
  by (simp_all add: exPlatform_def)

lemma ex_run1:
  "\<exists>r. processJob exPlatform exEnvA exWorker mainJob exWorld = (Inr r, exWorld1)"
proof -
  from ex_page(2) obtain row where "screens exWorld (screenId mainJob) = Some row" by blast
  from processJob_succeeds [OF ex_page(1) this, of exEnvA exPlatform]
  obtain r w' where "processJob exPlatform exEnvA exWorker mainJob exWorld = (Inr r, w')"
    by (auto simp: exEnvA_def ex_env)
  then show ?thesis by (simp add: exWorld1_def)
qed

lemma ex_world1:
  "\<exists>c f. captures exWorld1 = [c] \<and> screenFiles exWorld1 = [f]
     \<and> capture_screenId c = ''screen-id'' \<and> capture_imgHash c = ''md5:PNG-A''
     \<and> file_imgHash f = ''md5:PNG-A''
     \<and> capture_domHash c = ''sha256:<html>one</html>'' \<and> capture_diffScore c = 0"
  "screens exWorld1 ''screen-id'' \<noteq> None"
proof -
  from ex_run1 obtain r where
    r: "processJob exPlatform exEnvA exWorker mainJob exWorld = (Inr r, exWorld1)" by blast
  from processJob_Inr_rows [OF r]
  show "\<exists>c f. captures exWorld1 = [c] \<and> screenFiles exWorld1 = [f]
     \<and> capture_screenId c = ''screen-id'' \<and> capture_imgHash c = ''md5:PNG-A''
     \<and> file_imgHash f = ''md5:PNG-A''
     \<and> capture_domHash c = ''sha256:<html>one</html>'' \<and> capture_diffScore c = 0"
    by (auto simp: ex_page ex_env exEnvA_def ex_platform previousCapture_def diffScoreOf_def)
  from r have "tryBlock exPlatform exEnvA mainJob exWorld = (Inr r, exWorld1)"
    by (simp add: processJob_Inr_iff)
  from tryBlock_screens [OF this] ex_page(2) show "screens exWorld1 ''screen-id'' \<noteq> None"
    by (simp add: ex_page)
qed

lemma ex_run2:
  "\<exists>r w'. processJob exPlatform (exEnv (\<lambda>st. False) shot html) exWorker job exWorld1 = (Inr r, w')"
  if "screenId job = ''screen-id''"
proof -
  from ex_world1(2) that obtain row where "screens exWorld1 (screenId job) = Some row" by auto
  from processJob_succeeds [OF ex_page(1) this, of "exEnv (\<lambda>st. False) shot html" exPlatform]
  show ?thesis by (simp add: ex_env)
qed

lemma ex_single_failure:
  assumes "st \<in> jobStages mainJob"
  shows "\<exists>w'. processJob exPlatform (exEnvFailing st) exWorker mainJob exWorld = (Inl (Thrown st), w')"
  using processJob_single_failure [OF ex_page(1,2) assms, of "exEnvFailing st" exPlatform]
  by (auto simp: exEnvFailing_def ex_env)

text \<open>The job of \<open>main\<close> on a store without captures.\<close>

theorem first_capture_is_baseline_witness:
  "captures exWorld = []
   \<and> calculateDiffScore exEnvA (screenId mainJob) ''md5:PNG-A'' exWorld = (Inr 0, exWorld)
   \<and> \<not> isl (fst (processJob exPlatform exEnvA exWorker mainJob exWorld))
   \<and> length (captures exWorld1) = 1
   \<and> capture_diffScore (hd (captures exWorld1)) = 0
   \<and> capture_changed (hd (captures exWorld1)) = False"
proof -
  have h: "\<forall>c \<in> set (captures exWorld). capture_screenId c \<noteq> screenId mainJob"
    by (simp add: ex_page)
  from ex_run1 obtain r where
    r: "processJob exPlatform exEnvA exWorker mainJob exWorld = (Inr r, exWorld1)" by blast
  from first_capture_is_baseline [OF h, where e = exEnvA and h = "''md5:PNG-A''"
      and P = exPlatform and this = exWorker and r = r and w' = exWorld1] r
  show ?thesis by (auto simp: ex_page exEnvA_def ex_env)
qed

text \<open>The same screenshot again, with another DOM serialization.\<close>

theorem identical_screenshot_scores_zero_witness:
  "screenshotBytes exEnvA2 = screenshotBytes exEnvA
   \<and> domContent exEnvA2 \<noteq> domContent exEnvA
   \<and> \<not> isl (fst (processJob exPlatform exEnvA2 exWorker mainJob exWorld1))
   \<and> length (captures (snd (processJob exPlatform exEnvA2 exWorker mainJob exWorld1))) = 2
   \<and> capture_diffScore (hd (captures (snd (processJob exPlatform exEnvA2 exWorker mainJob exWorld1)))) = 0
   \<and> capture_changed (hd (captures (snd (processJob exPlatform exEnvA2 exWorker mainJob exWorld1)))) = False"
proof -
  from ex_run1 obtain r1 where
    r1: "processJob exPlatform exEnvA exWorker mainJob exWorld = (Inr r1, exWorld1)" by blast
  from ex_run2 [OF ex_page(3), of "''PNG-A''" "''<html>two</html>''"] obtain r2 w2 where
    r2: "processJob exPlatform exEnvA2 exWorker mainJob exWorld1 = (Inr r2, w2)"
    by (auto simp: exEnvA2_def)
  have s: "screenshotBytes exEnvA2 = screenshotBytes exEnvA"
    by (simp add: exEnvA_def exEnvA2_def ex_env)
  from identical_screenshot_scores_zero [OF r1 refl r2 refl s] r2 s ex_world1(1)
  show ?thesis by (auto simp: exEnvA_def exEnvA2_def ex_env)
qed

text \<open>A second capture with another screenshot: the score is 0.5 and the flag is false.\<close>

theorem changed_flag_never_set_witness:
  "\<not> isl (fst (processJob exPlatform exEnvB exWorker mainJob exWorld1))
   \<and> length (captures (snd (processJob exPlatform exEnvB exWorker mainJob exWorld1))) = 2
   \<and> capture_diffScore (hd (captures (snd (processJob exPlatform exEnvB exWorker mainJob exWorld1)))) = 1 / 2
   \<and> capture_changed (hd (captures (snd (processJob exPlatform exEnvB exWorker mainJob exWorld1)))) = False"
proof -
  from ex_run2 [OF ex_page(3), of "''PNG-B''" "''<html>one</html>''"] obtain r2 w2 where
    r2: "processJob exPlatform exEnvB exWorker mainJob exWorld1 = (Inr r2, w2)"
    by (auto simp: exEnvB_def)
  from ex_world1(1) obtain c where c: "previousCapture exWorld1 (screenId mainJob) = Some c"
    "capture_imgHash c = ''md5:PNG-A''"
    by (auto simp: previousCapture_def ex_page)
  then have "capture_imgHash c \<noteq> md5Hex exPlatform (screenshotBytes exEnvB)"
    by (simp add: ex_platform exEnvB_def ex_env)
  from changed_flag_never_set [OF r2 c(1) this] r2 ex_world1(1) show ?thesis by auto
qed

text \<open>After the desktop capture, the page at the mobile breakpoint with another
  screenshot and the same DOM: the DOM hashes are equal and the score is 0.5. The DOM
  hash is not the signal.\<close>

theorem dimension_fallback_counterexample:
  "width mobileJob \<noteq> width mainJob \<and> height mobileJob \<noteq> height mainJob
   \<and> length (captures exWorld1) = 1
   \<and> length (captures (snd (processJob exPlatform exEnvB exWorker mobileJob exWorld1))) = 2
   \<and> capture_domHash (hd (captures (snd (processJob exPlatform exEnvB exWorker mobileJob exWorld1))))
       = capture_domHash (hd (captures exWorld1))
   \<and> capture_diffScore (hd (captures (snd (processJob exPlatform exEnvB exWorker mobileJob exWorld1)))) = 1 / 2"
proof -
  from ex_run2 [OF ex_page(4), of "''PNG-B''" "''<html>one</html>''"] obtain r2 w2 where
    r2: "processJob exPlatform exEnvB exWorker mobileJob exWorld1 = (Inr r2, w2)"
    by (auto simp: exEnvB_def)
  have d: "width mobileJob \<noteq> width mainJob \<and> height mobileJob \<noteq> height mainJob"
    by (simp add: mobileJob_def mainJob_def)
  from processJob_Inr_rows [OF r2] ex_world1(1) r2 d
  show ?thesis
    by (auto simp: ex_page ex_platform exEnvB_def ex_env previousCapture_def diffScoreOf_def)
qed

text \<open>The desktop job with the screenshot \<open>PNG-B\<close> and the mobile job with the screenshot
  \<open>PNG-C\<close> and another DOM: the same score, 0.5.\<close>

theorem diffScore_ignores_dimensions_and_dom_witness:
  "width mobileJob \<noteq> width mainJob \<and> domContent exEnvC2 \<noteq> domContent exEnvB
   \<and> screenshotBytes exEnvC2 \<noteq> screenshotBytes exEnvB
   \<and> length (captures (snd (processJob exPlatform exEnvC2 exWorker mobileJob exWorld1))) = 2
   \<and> length (captures (snd (processJob exPlatform exEnvB exWorker mainJob exWorld1))) = 2
   \<and> capture_diffScore (hd (captures (snd (processJob exPlatform exEnvC2 exWorker mobileJob exWorld1))))
       = capture_diffScore (hd (captures (snd (processJob exPlatform exEnvB exWorker mainJob exWorld1))))
   \<and> capture_diffScore (hd (captures (snd (processJob exPlatform exEnvB exWorker mainJob exWorld1)))) = 1 / 2"
proof -
  from ex_run2 [OF ex_page(3), of "''PNG-B''" "''<html>one</html>''"] obtain r2 w2 where
    r2: "processJob exPlatform exEnvB exWorker mainJob exWorld1 = (Inr r2, w2)"
    by (auto simp: exEnvB_def)
  from ex_run2 [OF ex_page(4), of "''PNG-C''" "''<html>two</html>''"] obtain r3 w3 where
    r3: "processJob exPlatform exEnvC2 exWorker mobileJob exWorld1 = (Inr r3, w3)"
    by (auto simp: exEnvC2_def)
  from ex_world1(1) obtain c where c: "previousCapture exWorld1 (screenId mainJob) = Some c"
    "capture_imgHash c = ''md5:PNG-A''"
    by (auto simp: previousCapture_def ex_page)
  have s: "screenId mobileJob = screenId mainJob"
    by (simp add: ex_page)
  have h: "(capture_imgHash c = md5Hex exPlatform (screenshotBytes exEnvC2))
      = (capture_imgHash c = md5Hex exPlatform (screenshotBytes exEnvB))"
    by (simp add: c(2) ex_platform exEnvB_def exEnvC2_def ex_env)
  from diffScore_ignores_dimensions_and_dom [OF r2 r3 s c(1) h] ex_world1(1) r2 r3 c(2)
  show ?thesis
    by (auto simp: ex_page ex_platform exEnvB_def exEnvC2_def ex_env mobileJob_def mainJob_def)
qed

text \<open>The insert of the capture throws: the job fails and its file row stays. Navigation
  throws and the handler cannot write the status: the page stays in \<open>processing\<close>.\<close>

theorem failed_job_rows_counterexample:
  "fst (processJob exPlatform (exEnvFailing CaptureCreate) exWorker mainJob exWorld)
     = Inl (Thrown CaptureCreate)
   \<and> length (screenFiles (snd (processJob exPlatform (exEnvFailing CaptureCreate) exWorker mainJob exWorld))) = 1
   \<and> fst (processJob exPlatform exEnvOutage exWorker mainJob exWorld)
     = Inl (Thrown ScreenUpdateFailed)
   \<and> statusOf (snd (processJob exPlatform exEnvOutage exWorker mainJob exWorld)) ''screen-id''
     = Some ''processing''"
proof -
  have "CaptureCreate \<in> jobStages mainJob" by (simp add: jobStages_def)
  from ex_single_failure [OF this] obtain w' where
    f: "processJob exPlatform (exEnvFailing CaptureCreate) exWorker mainJob exWorld
          = (Inl (Thrown CaptureCreate), w')" by blast
  have "\<not> fails (exEnvFailing CaptureCreate) ScreenUpdateFailed"
    by (simp add: exEnvFailing_def ex_env)
  from processJob_Inl_handler [OF f ex_page(1,2) this] obtain w0 where
    t: "tryBlock exPlatform (exEnvFailing CaptureCreate) mainJob exWorld = (Inl (Thrown CaptureCreate), w0)"
    and eq: "screenFiles w' = screenFiles w0" by blast
  from tryBlock_Inl_rows [OF t] eq have "length (screenFiles w') = 1"
    by (auto simp: ex_page)
  moreover have "\<forall>s. fails exEnvOutage s \<longleftrightarrow> s = Goto \<or> s = ScreenUpdateFailed"
    by (simp add: exEnvOutage_def ex_env)
  from processJob_outage [OF ex_page(1,2) this, of exPlatform
      "fst (processJob exPlatform exEnvOutage exWorker mainJob exWorld)"
      "snd (processJob exPlatform exEnvOutage exWorker mainJob exWorld)"]
  have "fst (processJob exPlatform exEnvOutage exWorker mainJob exWorld)
     = Inl (Thrown ScreenUpdateFailed)
   \<and> statusOf (snd (processJob exPlatform exEnvOutage exWorker mainJob exWorld)) ''screen-id''
     = Some ''processing''"
    by (simp add: ex_page)
  ultimately show ?thesis using f by simp
qed

text \<open>The upload of the PNG throws: status \<open>failed\<close>, the error thrown again, no rows.\<close>

theorem failed_job_status_and_rows_witness:
  "fst (processJob exPlatform (exEnvFailing (S3Send ''screenshots/site-id/screen-id/original.png''))
          exWorker mainJob exWorld)
     = Inl (Thrown (S3Send ''screenshots/site-id/screen-id/original.png''))
   \<and> statusOf (snd (processJob exPlatform
          (exEnvFailing (S3Send ''screenshots/site-id/screen-id/original.png''))
          exWorker mainJob exWorld)) ''screen-id'' = Some ''failed''
   \<and> screenFiles (snd (processJob exPlatform
          (exEnvFailing (S3Send ''screenshots/site-id/screen-id/original.png''))
          exWorker mainJob exWorld)) = []
   \<and> captures (snd (processJob exPlatform
          (exEnvFailing (S3Send ''screenshots/site-id/screen-id/original.png''))
          exWorker mainJob exWorld)) = []"
proof -
  let ?st = "S3Send ''screenshots/site-id/screen-id/original.png''"
  have "?st \<in> jobStages mainJob"
    by (simp add: jobStages_def uploadKeys_def mainJob_def)
  from ex_single_failure [OF this] obtain w' where
    f: "processJob exPlatform (exEnvFailing ?st) exWorker mainJob exWorld = (Inl (Thrown ?st), w')"
    by blast
  have nf: "\<not> fails (exEnvFailing ?st) ScreenUpdateFailed"
    by (simp add: exEnvFailing_def ex_env)
  have "Thrown ?st \<notin> Thrown ` lateStages" by (auto simp: lateStages_def)
  with failed_job_status_and_rows [OF f ex_page(1,2) nf] f show ?thesis
    by (simp add: ex_page)
qed

text \<open>Navigation throws: the page that was opened stays open.\<close>

theorem page_closed_only_on_success_witness:
  "fst (processJob exPlatform (exEnvFailing Goto) exWorker mainJob exWorld) = Inl (Thrown Goto)
   \<and> pagesOpened (snd (processJob exPlatform (exEnvFailing Goto) exWorker mainJob exWorld)) = 1
   \<and> pagesClosed (snd (processJob exPlatform (exEnvFailing Goto) exWorker mainJob exWorld)) = 0"
proof -
  have "Goto \<in> jobStages mainJob" by (simp add: jobStages_def)
  from ex_single_failure [OF this] obtain w' where
    f: "processJob exPlatform (exEnvFailing Goto) exWorker mainJob exWorld = (Inl (Thrown Goto), w')"
    by blast
  have nf: "\<not> fails (exEnvFailing Goto) ScreenUpdateProcessing"
    "\<not> fails (exEnvFailing Goto) NewPage"
    by (simp_all add: exEnvFailing_def ex_env)
  from page_closed_only_on_success [OF ex_page(1,2) nf, where P = exPlatform
      and err = "Thrown Goto" and w' = w'] f
  show ?thesis by (simp add: ex_page)
qed

text \<open>The lookup between the two inserts throws: a file row without a capture row.\<close>

theorem artifact_without_capture_counterexample:
  "fst (processJob exPlatform (exEnvFailing CaptureFindFirst) exWorker mainJob exWorld)
     = Inl (Thrown CaptureFindFirst)
   \<and> length (screenFiles (snd (processJob exPlatform (exEnvFailing CaptureFindFirst) exWorker mainJob exWorld))) = 1
   \<and> captures (snd (processJob exPlatform (exEnvFailing CaptureFindFirst) exWorker mainJob exWorld)) = []"
proof -
  have "CaptureFindFirst \<in> jobStages mainJob" by (simp add: jobStages_def)
  from ex_single_failure [OF this] obtain w' where
    f: "processJob exPlatform (exEnvFailing CaptureFindFirst) exWorker mainJob exWorld
          = (Inl (Thrown CaptureFindFirst), w')" by blast
  have "\<not> fails (exEnvFailing CaptureFindFirst) ScreenUpdateFailed"
    by (simp add: exEnvFailing_def ex_env)
  from processJob_Inl_handler [OF f ex_page(1,2) this] obtain w0 where
    t: "tryBlock exPlatform (exEnvFailing CaptureFindFirst) mainJob exWorld
          = (Inl (Thrown CaptureFindFirst), w0)"
    and eq: "screenFiles w' = screenFiles w0" "captures w' = captures w0" by blast
  from tryBlock_Inl_rows [OF t] eq f show ?thesis
    by (auto simp: ex_page)
qed

text \<open>The job of \<open>main\<close>: one row in each table, the same image hash.\<close>

theorem capture_and_artifact_rows_witness:
  "\<not> isl (fst (processJob exPlatform exEnvA exWorker mainJob exWorld))
   \<and> length (captures exWorld1) = 1 \<and> length (screenFiles exWorld1) = 1
   \<and> capture_imgHash (hd (captures exWorld1)) = file_imgHash (hd (screenFiles exWorld1))"
proof -
  from ex_run1 obtain r where
    r: "processJob exPlatform exEnvA exWorker mainJob exWorld = (Inr r, exWorld1)" by blast
  from capture_and_artifact_rows [OF r] r show ?thesis
    by (auto simp: ex_page)
qed

text \<open>Two jobs for the page of \<open>main\<close>, the second with another screenshot.\<close>

theorem diffScore_is_zero_or_half_witness:
  "calculateDiffScore exEnvB ''screen-id'' ''md5:PNG-B'' exWorld1 = (Inr (1 / 2), exWorld1)
   \<and> calculateDiffScore exEnvB ''screen-id'' ''md5:PNG-A'' exWorld1 = (Inr 0, exWorld1)
   \<and> list_all (\<lambda>c. capture_diffScore c = 0 \<or> capture_diffScore c = 1 / 2)
       (captures (runJobs exPlatform exWorker [(exEnvA, mainJob), (exEnvB, mainJob)] exWorld))"
proof -
  from ex_world1(1) obtain c where c: "previousCapture exWorld1 ''screen-id'' = Some c"
    "capture_imgHash c = ''md5:PNG-A''"
    by (auto simp: previousCapture_def)
  have nf: "\<not> fails exEnvB CaptureFindFirst" by (simp add: exEnvB_def ex_env)
  have e: "\<forall>c \<in> set (captures exWorld). capture_diffScore c = 0 \<or> capture_diffScore c = 1 / 2"
    by (simp add: ex_page)
  from diffScore_is_zero_or_half [of exEnvB "''screen-id''" "''md5:PNG-B''" exWorld1 exPlatform
      exWorker "[]"]
    diffScore_is_zero_or_half [of exEnvB "''screen-id''" "''md5:PNG-A''" exWorld exPlatform
      exWorker "[(exEnvA, mainJob), (exEnvB, mainJob)]"]
    diffScore_is_zero_or_half [of exEnvB "''screen-id''" "''md5:PNG-A''" exWorld1 exPlatform
      exWorker "[]"] c nf e
  show ?thesis by (simp add: list_all_iff)
qed




end
